theory Spec2Isabelle
  imports Complex_Main
begin

section \<open>Conventions\<close>

text \<open>
  The notebook \<^verbatim>\<open>src/unnamed/part_000\<close> holds five Q\# callables
  (\<^verbatim>\<open>GetQubitIndex\<close>, \<^verbatim>\<open>SetSequences\<close>, \<^verbatim>\<open>ApplyAllX\<close>, \<^verbatim>\<open>ApplyDoubleZ\<close>,
  \<^verbatim>\<open>IsingModel2DSim\<close>) and one Python function (\<^verbatim>\<open>dashboard\<close>, with the nested
  \<^verbatim>\<open>get_row\<close>).

  \<^item> Q\# \<^verbatim>\<open>Int\<close> is a 64-bit signed integer whose arithmetic wraps around: a value is an
    \<^typ>\<open>int\<close> between \<open>- 2\<^sup>6\<^sup>3\<close> and \<open>2\<^sup>6\<^sup>3 - 1\<close>, and every \<open>+\<close>, \<open>-\<close> and \<open>*\<close> of the source
    is followed by \<open>wrap\<close> where its result can leave that range.
  \<^item> A double is the real number it stands for. Where a double decides what the program
    does next or prints (the quotient \<^verbatim>\<open>totTime / dt\<close> that gives the number of steps, the
    divisions and comparisons of \<^verbatim>\<open>get_row\<close>), the operation is rounded to the nearest
    double as the machine does it (\<open>nearest\<close>). The angles that \<^verbatim>\<open>SetSequences\<close> stores
    are kept as the exact products: the statements about them say which closed-form
    coefficient is stored and applied where. A real of magnitude \<open>2\<^sup>1\<^sup>0\<^sup>2\<^sup>4\<close> or more stands for
    an infinity, which a quotient gives when it overflows; NaN is left out, and the
    doubles that the program receives are finite (an infinite runtime apart, which
    \<^verbatim>\<open>get_row\<close> is followed on).
  \<^item> A qubit is the number it has in the allocated register; a quantum operation is
    the list of primitive gates it issues, in order.
  \<^item> A run-time failure of Q\# (an index out of range, an array of negative size) is a
    value \<open>Inl e\<close> of a sum type; the gates issued before the failure are dropped with it.
    A Python exception is a value \<open>Inl e\<close> too.
\<close>

section \<open>Doubles\<close>

text \<open>Rounding to the nearest integer, a tie going to the even one.\<close>

definition half_even :: "real \<Rightarrow> int" where
  "half_even x =
     (let f = \<lfloor>x\<rfloor>; d = x - of_int f
      in if d < 1 / 2 then f else if 1 / 2 < d then f + 1 else if even f then f else f + 1)"

text \<open>
  The double nearest to a real number, a tie going to the even significand: 53 bits of
  significand above \<open>2\<^sup>-\<^sup>1\<^sup>0\<^sup>2\<^sup>2\<close>, multiples of \<open>2\<^sup>-\<^sup>1\<^sup>0\<^sup>7\<^sup>4\<close> below. (A result of \<open>2\<^sup>1\<^sup>0\<^sup>2\<^sup>4\<close> or
  more stands for an infinity.)
\<close>

definition nearest :: "real \<Rightarrow> real" where
  "nearest x =
     (if x = 0 then 0
      else let e = max (\<lfloor>log 2 \<bar>x\<bar>\<rfloor> - 52) (- 1074)
           in of_int (half_even (x / 2 powi e)) * 2 powi e)"

section \<open>The Q\# part: a Trotter-Suzuki circuit for the 2D Ising model\<close>

datatype error = IndexOutOfRange | NegativeArraySize

datatype gate = Rx real nat | Rz real nat | CNOT nat nat | M nat

subsection \<open>Q\# primitives\<close>

text \<open>The 64-bit result of an integer operation.\<close>

definition wrap :: "int \<Rightarrow> int" where
  "wrap x = (x + 2 ^ 63) mod 2 ^ 64 - 2 ^ 63"

text \<open>Q\# \<^verbatim>\<open>%\<close> on \<^verbatim>\<open>Int\<close>: the remainder of the truncating division, with the sign of the
  dividend.\<close>

definition rem :: "int \<Rightarrow> int \<Rightarrow> int" where
  "rem a b = sgn a * (\<bar>a\<bar> mod \<bar>b\<bar>)"

text \<open>\<^verbatim>\<open>xs[i]\<close> and the copy-and-update \<^verbatim>\<open>xs w/= i <- v\<close>; both fail outside
  \<open>0 .. Length(xs) - 1\<close>.\<close>

definition item :: "'a list \<Rightarrow> int \<Rightarrow> error + 'a" where
  "item xs i = (if 0 \<le> i \<and> i < int (length xs) then Inr (xs ! nat i) else Inl IndexOutOfRange)"

definition with_item :: "'a list \<Rightarrow> int \<Rightarrow> 'a \<Rightarrow> error + 'a list" where
  "with_item xs i v =
     (if 0 \<le> i \<and> i < int (length xs) then Inr (xs[nat i := v]) else Inl IndexOutOfRange)"

text \<open>\<^verbatim>\<open>[v, size = n]\<close>: fails for a negative size.\<close>

definition sized :: "'a \<Rightarrow> int \<Rightarrow> error + 'a list" where
  "sized v n = (if n < 0 then Inl NegativeArraySize else Inr (replicate (nat n) v))"

text \<open>\<^verbatim>\<open>use qs = Qubit[n]\<close> allocates the qubits \<open>0, \<dots>, n - 1\<close>, and fails for a negative
  \<open>n\<close>.\<close>

definition Qubits :: "int \<Rightarrow> error + nat list" where
  "Qubits n = (if n < 0 then Inl NegativeArraySize else Inr [0..<nat n])"

text \<open>The range \<^verbatim>\<open>a..b\<close> is \<^term>\<open>[a..b]\<close> (empty when \<open>b < a\<close>); the range
  \<^verbatim>\<open>a..2..b\<close> keeps every second element, starting at \<open>a\<close>.\<close>

definition range2 :: "int \<Rightarrow> int \<Rightarrow> int list" where
  "range2 a b = filter (\<lambda>j. (j - a) mod 2 = 0) [a..b]"

text \<open>A \<^verbatim>\<open>for\<close> loop whose body issues gates or fails: one gate list per iteration
  (\<open>for_layers\<close>), and the whole loop as one gate list (\<open>for_each\<close>).\<close>

fun for_layers :: "'a list \<Rightarrow> ('a \<Rightarrow> error + gate list) \<Rightarrow> error + gate list list" where
  "for_layers [] body = Inr []"
| "for_layers (x # xs) body =
     (case body x of
        Inl e \<Rightarrow> Inl e
      | Inr g \<Rightarrow> (case for_layers xs body of Inl e \<Rightarrow> Inl e | Inr gs \<Rightarrow> Inr (g # gs)))"

definition for_each :: "'a list \<Rightarrow> ('a \<Rightarrow> error + gate list) \<Rightarrow> error + gate list" where
  "for_each xs body = (case for_layers xs body of Inl e \<Rightarrow> Inl e | Inr gs \<Rightarrow> Inr (concat gs))"

text \<open>
  \<^verbatim>\<open>Truncate\<close> and \<^verbatim>\<open>Ceiling\<close> are functions of the Q\# library. \<^verbatim>\<open>Truncate\<close> drops the
  fraction of a double; a double outside the range of \<^verbatim>\<open>Int\<close> gives the nearest end of
  the range. \<^verbatim>\<open>Ceiling\<close> is, in the library,
  \<^verbatim>\<open>let truncated = Truncate(value); let remainder = IntAsDouble(truncated) - value;\<close>
  \<^verbatim>\<open>if AbsD(remainder) <= 1e-15 { truncated } else { value >= 0.0 ? truncated + 1 | truncated }\<close>:
  a value within \<open>10\<^sup>-\<^sup>1\<^sup>5\<close> above an integer counts as that integer.
\<close>

definition Truncate :: "real \<Rightarrow> int" where
  "Truncate x =
     (if 2 ^ 63 \<le> x then 2 ^ 63 - 1
      else if x < - (2 ^ 63) then - (2 ^ 63)
      else if 0 \<le> x then \<lfloor>x\<rfloor> else \<lceil>x\<rceil>)"

definition Ceiling :: "real \<Rightarrow> int" where
  "Ceiling value =
     (let truncated = Truncate value;
          remainder = nearest (nearest (of_int truncated) - value);
          isPositive = (0 \<le> value)
      in if \<bar>remainder\<bar> \<le> nearest (1 / 10 ^ 15) then truncated
         else if isPositive then wrap (truncated + 1) else truncated)"

subsection \<open>\<^verbatim>\<open>GetQubitIndex\<close>\<close>

definition GetQubitIndex :: "int \<Rightarrow> int \<Rightarrow> int \<Rightarrow> int" where
  "GetQubitIndex row col n =
     (if rem row 2 = 0 then wrap (col + wrap (n * row))
      else wrap (wrap (wrap (n - 1) - col) + wrap (n * row)))"

subsection \<open>\<^verbatim>\<open>SetSequences\<close>\<close>

text \<open>The loop \<^verbatim>\<open>for i in 1..len - 2\<close> over the two mutable arrays.\<close>

fun assign_values :: "int list \<Rightarrow> real list \<Rightarrow> real list \<times> real list
    \<Rightarrow> error + (real list \<times> real list)" where
  "assign_values [] values s = Inr s"
| "assign_values (i # is) values (seqA, seqB) =
     (case item values (rem i 10) of
        Inl e \<Rightarrow> Inl e
      | Inr v \<Rightarrow>
          if rem i 2 = 0
          then (case with_item seqA i v of
                  Inl e \<Rightarrow> Inl e
                | Inr seqA' \<Rightarrow> assign_values is values (seqA', seqB))
          else (case with_item seqB i v of
                  Inl e \<Rightarrow> Inl e
                | Inr seqB' \<Rightarrow> assign_values is values (seqA, seqB')))"

definition SetSequences :: "int \<Rightarrow> real \<Rightarrow> real \<Rightarrow> real \<Rightarrow> real
    \<Rightarrow> error + (real list \<times> real list)" where
  "SetSequences len p dt J g =
     (case sized (0::real) len of
        Inl e \<Rightarrow> Inl e
      | Inr seqA0 \<Rightarrow>
     (case sized (0::real) len of
        Inl e \<Rightarrow> Inl e
      | Inr seqB0 \<Rightarrow>
     (let values = [
            - J * p * dt,
            g * p * dt,
            - J * p * dt,
            g * p * dt,
            - J * (1 - 3 * p) * dt / 2,
            g * (1 - 4 * p) * dt,
            - J * (1 - 3 * p) * dt / 2,
            g * p * dt,
            - J * p * dt,
            g * p * dt]
      in
     (case with_item seqA0 0 (- J * p * dt / 2) of
        Inl e \<Rightarrow> Inl e
      | Inr seqA1 \<Rightarrow>
     (case with_item seqA1 (len - 1) (- J * p * dt / 2) of
        Inl e \<Rightarrow> Inl e
      | Inr seqA2 \<Rightarrow> assign_values [1..len - 2] values (seqA2, seqB0))))))"

subsection \<open>\<^verbatim>\<open>ApplyAllX\<close> and \<^verbatim>\<open>ApplyDoubleZ\<close>\<close>

text \<open>\<^verbatim>\<open>ApplyToEach(Rx(2.0 * theta, _), qs)\<close>.\<close>

definition ApplyAllX :: "nat list \<Rightarrow> real \<Rightarrow> gate list" where
  "ApplyAllX qs theta = map (Rx (2 * theta)) qs"

text \<open>The two indices of one iteration of \<^verbatim>\<open>ApplyDoubleZ\<close>.\<close>

definition pair_indices :: "int \<Rightarrow> bool \<Rightarrow> int \<Rightarrow> int \<Rightarrow> int \<times> int" where
  "pair_indices n dir i j =
     (let (row, col) = (if dir then (i, j) else (j, i));
          ind1 = GetQubitIndex row col n;
          ind2 = (if dir then GetQubitIndex row (wrap (col + 1)) n
                  else GetQubitIndex (wrap (row + 1)) col n)
      in (ind1, ind2))"

text \<open>\<^verbatim>\<open>within { CNOT(a, b) } apply { Rz(2.0 * theta, b) }\<close> issues the \<^verbatim>\<open>CNOT\<close>, the
  rotation and the adjoint of the \<^verbatim>\<open>CNOT\<close>, which is the \<^verbatim>\<open>CNOT\<close> again.\<close>

definition zz_pair :: "int \<Rightarrow> nat list \<Rightarrow> real \<Rightarrow> bool \<Rightarrow> int \<Rightarrow> int \<Rightarrow> error + gate list" where
  "zz_pair n qs theta dir i j =
     (let (ind1, ind2) = pair_indices n dir i j in
      case item qs ind1 of
        Inl e \<Rightarrow> Inl e
      | Inr q1 \<Rightarrow>
     (case item qs ind2 of
        Inl e \<Rightarrow> Inl e
      | Inr q2 \<Rightarrow> Inr [CNOT q1 q2, Rz (2 * theta) q2, CNOT q1 q2]))"

definition ApplyDoubleZ :: "int \<Rightarrow> nat list \<Rightarrow> real \<Rightarrow> bool \<Rightarrow> bool \<Rightarrow> error + gate list" where
  "ApplyDoubleZ n qs theta dir grp =
     (let start = (if grp then 0 else 1) in
      for_each [0..wrap (n - 1)] (\<lambda>i.
        for_each (range2 start (wrap (n - 2))) (\<lambda>j. zz_pair n qs theta dir i j)))"

subsection \<open>\<^verbatim>\<open>IsingModel2DSim\<close>\<close>

text \<open>One iteration of the main loop: the exponential term of index \<open>i\<close>.\<close>

definition exp_term :: "int \<Rightarrow> nat list \<Rightarrow> real list \<Rightarrow> real list \<Rightarrow> int \<Rightarrow> error + gate list" where
  "exp_term N qs seqA seqB i =
     (if rem i 2 = 0
      then (case item seqA i of Inl e \<Rightarrow> Inl e | Inr a \<Rightarrow> Inr (ApplyAllX qs a))
      else for_each [(True, True), (True, False), (False, True), (False, False)]
             (\<lambda>(dir, grp).
                case item seqB i of Inl e \<Rightarrow> Inl e | Inr b \<Rightarrow> ApplyDoubleZ N qs b dir grp))"

text \<open>The main loop \<^verbatim>\<open>for i in 0..seqLen - 1\<close>, one gate list per index.\<close>

definition main_loop :: "int \<Rightarrow> nat list \<Rightarrow> real list \<Rightarrow> real list \<Rightarrow> int
    \<Rightarrow> error + gate list list" where
  "main_loop N qs seqA seqB seqLen =
     for_layers [0..wrap (seqLen - 1)] (exp_term N qs seqA seqB)"

text \<open>\<^verbatim>\<open>Ignore(x);\<close> evaluates \<open>x\<close>, drops it and goes on with the rest of the block.\<close>

definition Ignore :: "'a \<Rightarrow> 'b \<Rightarrow> 'b" where
  "Ignore x rest = rest"

text \<open>
  The only thing that may differ between two runs on the same arguments is what the
  measurements \<^verbatim>\<open>M(qs[0])\<close> return; \<open>outcome k\<close> is the result of the \<open>k\<close>-th of them.
\<close>

definition IsingModel2DSim :: "int \<Rightarrow> real \<Rightarrow> real \<Rightarrow> real \<Rightarrow> real \<Rightarrow> real \<Rightarrow> int
    \<Rightarrow> (int \<Rightarrow> bool) \<Rightarrow> error + gate list" where
  "IsingModel2DSim N J g totTime dt eps noops outcome =
     (case Qubits (wrap (N * N)) of
        Inl e \<Rightarrow> Inl e
      | Inr qs \<Rightarrow>
     (let len = int (length qs);
          p = 1 / (4 - 4 powr (1 / 3));
          t = Ceiling (nearest (totTime / dt));
          seqLen = wrap (wrap (10 * t) + 1)
      in
      case SetSequences seqLen p dt J g of
        Inl e \<Rightarrow> Inl e
      | Inr (seqA, seqB) \<Rightarrow>
     (case main_loop N qs seqA seqB seqLen of
        Inl e \<Rightarrow> Inl e
      | Inr layers \<Rightarrow>
     (case for_each [1..noops]
             (\<lambda>k. case item qs 0 of
                     Inl e \<Rightarrow> Inl e
                   | Inr q \<Rightarrow> Ignore (outcome k) (Inr [M q])) of
        Inl e \<Rightarrow> Inl e
      | Inr ms \<Rightarrow> Inr (concat layers @ ms)))))"

section \<open>The Python part: \<^verbatim>\<open>dashboard\<close> and \<^verbatim>\<open>get_row\<close>\<close>

text \<open>
  The same function is in \<^verbatim>\<open>src/unnamed/part_000\<close> and in
  \<^verbatim>\<open>estimation-factoring.ipynb\<close>, character for character.

  Python objects live in a heap. A value is an \<^verbatim>\<open>int\<close> (unbounded), a \<^verbatim>\<open>float\<close> (a finite
  double), a string, or a reference to a dictionary; the heap gives the items of the
  dictionary at each address. A result record is such a dictionary, with dictionaries
  inside (lists, booleans and \<^verbatim>\<open>None\<close> are left out). A computation takes the heap and
  returns a value or an exception, and the heap after it.
\<close>

datatype py_error =
  KeyError | IndexError | TypeError | ValueError | ZeroDivisionError | OverflowError

datatype pyval = VInt int | VFloat real | VStr string | VDict nat

type_synonym heap = "nat \<Rightarrow> (string \<times> pyval) list"

type_synonym 'a py = "heap \<Rightarrow> (py_error + 'a) \<times> heap"

text \<open>A step that touches no object, and one step followed by another; an exception ends
  the sequence.\<close>

definition give :: "py_error + 'a \<Rightarrow> 'a py" where
  "give r h = (r, h)"

definition then_py :: "'a py \<Rightarrow> ('a \<Rightarrow> 'b py) \<Rightarrow> 'b py" where
  "then_py m f h = (case m h of (Inl e, h') \<Rightarrow> (Inl e, h') | (Inr x, h') \<Rightarrow> f x h')"

text \<open>\<^verbatim>\<open>d[key]\<close> with a string key reads the dictionary; \<^verbatim>\<open>d[key] = v\<close> writes it.\<close>

definition getitem :: "pyval \<Rightarrow> string \<Rightarrow> pyval py" where
  "getitem d key h =
     (case d of
        VDict a \<Rightarrow> (case map_of (h a) key of None \<Rightarrow> (Inl KeyError, h) | Some v \<Rightarrow> (Inr v, h))
      | _ \<Rightarrow> (Inl TypeError, h))"

definition setitem :: "pyval \<Rightarrow> string \<Rightarrow> pyval \<Rightarrow> pyval py" where
  "setitem d key v h =
     (case d of
        VDict a \<Rightarrow> (Inr v, h(a := (key, v) # h a))
      | _ \<Rightarrow> (Inl TypeError, h))"

text \<open>\<^verbatim>\<open>d[k1][k2]...\<close>, from left to right.\<close>

fun getpath :: "pyval \<Rightarrow> string list \<Rightarrow> pyval py" where
  "getpath d [] = give (Inr d)"
| "getpath d (k # ks) = then_py (getitem d k) (\<lambda>v. getpath v ks)"

subsection \<open>Numbers\<close>

text \<open>
  An \<^verbatim>\<open>int\<close> converts to the nearest double; from \<open>2\<^sup>1\<^sup>0\<^sup>2\<^sup>4 - 2\<^sup>9\<^sup>7\<^sup>0\<close> on, which would round to
  \<open>2\<^sup>1\<^sup>0\<^sup>2\<^sup>4\<close>, the conversion raises \<^verbatim>\<open>OverflowError\<close>.
\<close>

definition float_limit :: real where
  "float_limit = 2 ^ 1024 - 2 ^ 970"

definition to_float :: "int \<Rightarrow> py_error + real" where
  "to_float i =
     (if float_limit \<le> \<bar>of_int i\<bar> then Inl OverflowError else Inr (nearest (of_int i)))"

text \<open>
  \<^verbatim>\<open>a / b\<close>. Two \<^verbatim>\<open>int\<close>s give the double nearest to the exact quotient, or
  \<^verbatim>\<open>OverflowError\<close> when it is too large; otherwise an \<^verbatim>\<open>int\<close> operand is converted first.
  A zero divisor raises \<^verbatim>\<open>ZeroDivisionError\<close>.
\<close>

fun truediv :: "pyval \<Rightarrow> pyval \<Rightarrow> py_error + real" where
  "truediv (VInt x) (VInt y) =
     (if y = 0 then Inl ZeroDivisionError
      else if float_limit \<le> \<bar>of_int x / of_int y\<bar> then Inl OverflowError
      else Inr (nearest (of_int x / of_int y)))"
| "truediv (VInt x) (VFloat y) =
     (case to_float x of
        Inl e \<Rightarrow> Inl e
      | Inr x' \<Rightarrow> if y = 0 then Inl ZeroDivisionError else Inr (nearest (x' / y)))"
| "truediv (VFloat x) (VInt y) =
     (case to_float y of
        Inl e \<Rightarrow> Inl e
      | Inr y' \<Rightarrow> if y = 0 then Inl ZeroDivisionError else Inr (nearest (x / y')))"
| "truediv (VFloat x) (VFloat y) =
     (if y = 0 then Inl ZeroDivisionError else Inr (nearest (x / y)))"
| "truediv a b = Inl TypeError"

text \<open>
  \<^verbatim>\<open>f"{v:spec}"\<close> for the specifications \<^verbatim>\<open>.1e\<close>, \<^verbatim>\<open>.1f\<close> and \<^verbatim>\<open>.2f\<close>. Rendering a double
  is Python's own; it is the parameter \<open>fmt\<close>. An \<^verbatim>\<open>int\<close> is converted to a double first.
  A string refuses these specifications with a \<^verbatim>\<open>ValueError\<close>, a dictionary with a
  \<^verbatim>\<open>TypeError\<close>.
\<close>

definition format_spec :: "(string \<Rightarrow> real \<Rightarrow> string) \<Rightarrow> string \<Rightarrow> pyval \<Rightarrow> py_error + string" where
  "format_spec fmt spec v =
     (case v of
        VInt i \<Rightarrow> (case to_float i of Inl e \<Rightarrow> Inl e | Inr x \<Rightarrow> Inr (fmt spec x))
      | VFloat x \<Rightarrow> Inr (fmt spec x)
      | VStr s \<Rightarrow> Inl ValueError
      | VDict a \<Rightarrow> Inl TypeError)"

text \<open>\<^verbatim>\<open>round(x)\<close> with one argument: the nearest integer, a tie going to the even one.\<close>

definition py_round :: "real \<Rightarrow> int" where
  "py_round x =
     (let f = \<lfloor>x\<rfloor>; d = x - of_int f
      in if d < 1 / 2 then f else if 1 / 2 < d then f + 1 else if even f then f else f + 1)"

text \<open>\<^verbatim>\<open>str\<close> of an integer, as an f-string prints it.\<close>

fun str_nat :: "nat \<Rightarrow> string" where
  "str_nat n =
     (if n < 10 then [''0123456789'' ! n]
      else str_nat (n div 10) @ [''0123456789'' ! (n mod 10)])"

definition str_int :: "int \<Rightarrow> string" where
  "str_int i = (if i < 0 then CHR ''-'' # str_nat (nat (- i)) else str_nat (nat i))"

subsection \<open>The runtime column\<close>

definition units :: "(string \<times> int) list" where
  "units = [(''nanosecs'', 1), (''microsecs'', 1000), (''millisecs'', 1000), (''secs'', 1000),
            (''mins'', 60), (''hours'', 60), (''days'', 24), (''years'', 365)]"

text \<open>The variable \<^verbatim>\<open>runtime_formatted\<close> holds a number until the loop breaks, and a
  string after.\<close>

datatype formatted = Float real | Text string

text \<open>
  \<^verbatim>\<open>for idx in range(1, len(units))\<close> with its \<^verbatim>\<open>break\<close>. The number \<open>r\<close> is the value of
  \<^verbatim>\<open>runtime_formatted\<close>: the runtime itself in the first pass, a double afterwards. The
  divisor is a small \<^verbatim>\<open>int\<close>, so the quotient is the nearest double in either case.
\<close>

fun runtime_loop :: "nat list \<Rightarrow> real \<Rightarrow> formatted" where
  "runtime_loop [] r = Float r"
| "runtime_loop (idx # rest) r =
     (if nearest (r / of_int (snd (units ! idx))) < 1
      then Text (str_int (py_round r mod snd (units ! idx)) @ '' '' @ fst (units ! (idx - 1)))
      else runtime_loop rest (nearest (r / of_int (snd (units ! idx)))))"

text \<open>The loop and the \<^verbatim>\<open>isinstance(runtime_formatted, float)\<close> case after it.\<close>

definition runtime_formatted :: "real \<Rightarrow> string" where
  "runtime_formatted runtime =
     (case runtime_loop [1..<length units] runtime of
        Float r \<Rightarrow> str_int (py_round r) @ '' '' @ fst (last units)
      | Text s \<Rightarrow> s)"

text \<open>
  The runtime as \<^verbatim>\<open>get_row\<close> receives it. Of the divisions only the first, of an \<^verbatim>\<open>int\<close>
  by 1000, can raise \<^verbatim>\<open>OverflowError\<close>: the later ones divide a double that is smaller
  than the one before. An infinite \<^verbatim>\<open>float\<close> stays infinite through the loop, or breaks
  it at once when negative, and \<^verbatim>\<open>round\<close> raises \<^verbatim>\<open>OverflowError\<close> on it. A string or a
  dictionary raises \<^verbatim>\<open>TypeError\<close> in the first division.
\<close>

definition runtime_text :: "pyval \<Rightarrow> py_error + string" where
  "runtime_text runtime =
     (case runtime of
        VInt i \<Rightarrow>
          if float_limit \<le> \<bar>of_int i / 1000\<bar> then Inl OverflowError
          else Inr (runtime_formatted (of_int i))
      | VFloat x \<Rightarrow>
          if 2 ^ 1024 \<le> \<bar>x\<bar> then Inl OverflowError else Inr (runtime_formatted x)
      | _ \<Rightarrow> Inl TypeError)"

subsection \<open>\<^verbatim>\<open>get_row\<close>\<close>

type_synonym row = "pyval \<times> string \<times> string \<times> pyval \<times> pyval \<times> string \<times> string \<times> string"

definition get_row :: "(string \<Rightarrow> real \<Rightarrow> string) \<Rightarrow> pyval \<Rightarrow> row py" where
  "get_row fmt result =
     then_py (getpath result [''physicalCounts'', ''breakdown'', ''algorithmicLogicalQubits''])
       (\<lambda>logical_qubits.
     then_py (getpath result [''physicalCounts'', ''breakdown'', ''logicalDepth''])
       (\<lambda>logical_depth.
     then_py (getpath result [''physicalCounts'', ''breakdown'', ''numTstates''])
       (\<lambda>num_tstates.
     then_py (getpath result [''logicalQubit'', ''codeDistance''])
       (\<lambda>code_distance.
     then_py (getpath result [''physicalCounts'', ''breakdown'', ''numTfactories''])
       (\<lambda>num_tfactories.
     then_py (getpath result [''physicalCounts'', ''breakdown'', ''physicalQubitsForTfactories''])
       (\<lambda>for_tfactories.
     then_py (getpath result [''physicalCounts'', ''physicalQubits''])
       (\<lambda>all_qubits.
     then_py (give (truediv for_tfactories all_qubits))
       (\<lambda>ratio.
     then_py (give (Inr (nearest (ratio * 100))))
       (\<lambda>tfactory_fraction.
     then_py (getpath result [''physicalCounts'', ''physicalQubits''])
       (\<lambda>physical_qubits.
     then_py (getpath result [''physicalCounts'', ''runtime''])
       (\<lambda>runtime.
     then_py (give (format_spec fmt ''.1e'' logical_depth))
       (\<lambda>logical_depth_formatted.
     then_py (give (format_spec fmt ''.1e'' num_tstates))
       (\<lambda>num_tstates_formatted.
     then_py (give (Inr (fmt ''.1f'' tfactory_fraction @ ''%'')))
       (\<lambda>tfactory_fraction_formatted.
     then_py (give (truediv physical_qubits (VFloat 1000000)))
       (\<lambda>millions.
     then_py (give (Inr (fmt ''.2f'' millions @ ''M'')))
       (\<lambda>physical_qubits_formatted.
     then_py (give (runtime_text runtime))
       (\<lambda>runtime_column.
     give (Inr (logical_qubits, logical_depth_formatted, num_tstates_formatted, code_distance,
                num_tfactories, tfactory_fraction_formatted, physical_qubits_formatted,
                runtime_column)))))))))))))))))))"

subsection \<open>\<^verbatim>\<open>dashboard\<close>\<close>





section \<open>Reference definitions for the statements\<close>

text \<open>The table \<^verbatim>\<open>values\<close> of \<^verbatim>\<open>SetSequences\<close>, on its own.\<close>

definition values_of :: "real \<Rightarrow> real \<Rightarrow> real \<Rightarrow> real \<Rightarrow> real list" where
  "values_of p dt J g = [
            - J * p * dt,
            g * p * dt,
            - J * p * dt,
            g * p * dt,
            - J * (1 - 3 * p) * dt / 2,
            g * (1 - 4 * p) * dt,
            - J * (1 - 3 * p) * dt / 2,
            g * p * dt,
            - J * p * dt,
            g * p * dt]"

text \<open>The constant \<open>p = (4 - 4\<^sup>1\<^sup>/\<^sup>3)\<^sup>-\<^sup>1\<close> of the fourth-order formula, as
  \<^verbatim>\<open>IsingModel2DSim\<close> computes it.\<close>

definition trotter_p :: real where
  "trotter_p = 1 / (4 - 4 powr (1 / 3))"

text \<open>
  The notebook's expansion of the fourth-order formula for one step,
  \<open>U\<^sub>4(\<Delta>) = e\<^sup>-\<^sup>i\<^sup>A\<^sup>p\<^sup>\<Delta>\<^sup>/\<^sup>2 e\<^sup>-\<^sup>i\<^sup>B\<^sup>p\<^sup>\<Delta> e\<^sup>-\<^sup>i\<^sup>A\<^sup>p\<^sup>\<Delta> e\<^sup>-\<^sup>i\<^sup>B\<^sup>p\<^sup>\<Delta> e\<^sup>-\<^sup>i\<^sup>A\<^sup>(\<^sup>1\<^sup>-\<^sup>3\<^sup>p\<^sup>)\<^sup>\<Delta>\<^sup>/\<^sup>2 e\<^sup>-\<^sup>i\<^sup>B\<^sup>(\<^sup>1\<^sup>-\<^sup>4\<^sup>p\<^sup>)\<^sup>\<Delta> \<dots>\<close>,
  with the last term of a step merged into the first term of the next: the factor of
  \<open>\<Delta>\<close> in the exponential of index \<open>k\<close>, out of \<open>len = 10 t + 1\<close>. The Hamiltonian is
  \<open>H = A + B\<close> with \<open>A = g \<Sum> X\<close> and \<open>B = - J \<Sum> Z Z\<close>, so the even positions carry
  \<open>g\<close> and the odd positions \<open>- J\<close>.
\<close>

definition U4_factor :: "real \<Rightarrow> int \<Rightarrow> int \<Rightarrow> real" where
  "U4_factor p len k =
     (if k = 0 \<or> k = len - 1 then p / 2
      else if k mod 10 = 4 \<or> k mod 10 = 6 then (1 - 3 * p) / 2
      else if k mod 10 = 5 then 1 - 4 * p
      else p)"

definition U4_angle :: "real \<Rightarrow> real \<Rightarrow> real \<Rightarrow> real \<Rightarrow> int \<Rightarrow> int \<Rightarrow> real" where
  "U4_angle p dt J g len k =
     (if even k then g * U4_factor p len k * dt else - J * U4_factor p len k * dt)"

text \<open>The runtime in the unit of index \<open>k\<close> of \<^term>\<open>units\<close>: the nanoseconds divided by
  the factors up to that unit.\<close>

definition scaled :: "real \<Rightarrow> nat \<Rightarrow> real" where
  "scaled runtime k = runtime / of_int (prod_list (map snd (take (Suc k) units)))"


subsection \<open>Reference definitions for the dashboard\<close>

text \<open>The number a value stands for, whether it converts to a finite double, and the
  double it converts to.\<close>

definition value_of :: "pyval \<Rightarrow> real" where
  "value_of v = (case v of VInt i \<Rightarrow> of_int i | VFloat x \<Rightarrow> x | _ \<Rightarrow> 0)"

definition in_float_range :: "pyval \<Rightarrow> bool" where
  "in_float_range v =
     (case v of
        VInt i \<Rightarrow> \<bar>of_int i\<bar> < float_limit
      | VFloat x \<Rightarrow> \<bar>x\<bar> < float_limit
      | _ \<Rightarrow> False)"

definition as_float :: "pyval \<Rightarrow> real" where
  "as_float v = (case v of VInt i \<Rightarrow> nearest (of_int i) | VFloat x \<Rightarrow> x | _ \<Rightarrow> 0)"


text \<open>The quotient of two numbers before it is rounded: of the two \<^verbatim>\<open>int\<close>s themselves, of
  the doubles when one of them is a \<^verbatim>\<open>float\<close>.\<close>

definition exact_quotient :: "pyval \<Rightarrow> pyval \<Rightarrow> real" where
  "exact_quotient a b =
     (case a of
        VInt x \<Rightarrow> (case b of VInt y \<Rightarrow> of_int x / of_int y | _ \<Rightarrow> as_float a / as_float b)
      | _ \<Rightarrow> as_float a / as_float b)"

text \<open>A computation that leaves every object as it was, and one that leaves the object at
  the address \<open>a\<close> as it was.\<close>

definition reads :: "'a py \<Rightarrow> bool" where
  "reads m \<longleftrightarrow> (\<forall>h. snd (m h) = h)"




text \<open>For contrast, a \<^verbatim>\<open>get_row\<close> that marks the record it has formatted.\<close>

definition get_row_marking :: "(string \<Rightarrow> real \<Rightarrow> string) \<Rightarrow> pyval \<Rightarrow> row py" where
  "get_row_marking fmt result =
     then_py (get_row fmt result) (\<lambda>r.
     then_py (setitem result ''seen'' (VInt 1)) (\<lambda>v.
     give (Inr r)))"

text \<open>A concrete renderer for the closed examples: the integer part in decimal.\<close>

definition fmt0 :: "string \<Rightarrow> real \<Rightarrow> string" where
  "fmt0 spec x = str_int \<lfloor>x\<rfloor>"

text \<open>A heap with one result record at the addresses \<open>a, \<dots>, a + 3\<close>, holding every field
  that \<^verbatim>\<open>get_row\<close> reads.\<close>

definition record_at :: "nat \<Rightarrow> pyval \<Rightarrow> pyval \<Rightarrow> pyval \<Rightarrow> heap \<Rightarrow> heap" where
  "record_at a logical_depth physical_qubits runtime h =
     h(a := [(''physicalCounts'', VDict (a + 1)), (''logicalQubit'', VDict (a + 3))],
       a + 1 := [(''breakdown'', VDict (a + 2)),
                 (''physicalQubits'', physical_qubits),
                 (''runtime'', runtime)],
       a + 2 := [(''algorithmicLogicalQubits'', VInt 230),
                 (''logicalDepth'', logical_depth),
                 (''numTstates'', VInt 400000),
                 (''numTfactories'', VInt 12),
                 (''physicalQubitsForTfactories'', VInt 300000)],
       a + 3 := [(''codeDistance'', VInt 15)])"

definition record_of :: "pyval \<Rightarrow> pyval \<Rightarrow> pyval \<Rightarrow> heap" where
  "record_of logical_depth physical_qubits runtime =
     record_at 0 logical_depth physical_qubits runtime (\<lambda>a. [])"



section \<open>Rounding to a double\<close>

lemma half_even_near:
  assumes "\<bar>x - of_int n\<bar> < 1 / 2"
  shows "half_even x = n"
proof (cases "of_int n \<le> x")
  case True
  then have "\<lfloor>x\<rfloor> = n" using assms by (intro floor_unique) auto
  then show ?thesis using assms True by (simp add: half_even_def)
next
  case False
  then have f: "\<lfloor>x\<rfloor> = n - 1" using assms by (intro floor_unique) auto
  have "1 / 2 < x - of_int (n - 1)" using assms False by auto
  then show ?thesis using f by (simp add: half_even_def)
qed

lemma half_even_of_int: "half_even (of_int n) = n"
  by (rule half_even_near) simp

lemma floor_log2: 
  assumes "2 powi k \<le> x" "x < 2 powi (k + 1)"
  shows "\<lfloor>log 2 x\<rfloor> = k"
proof -
  have "(0::real) < 2 powi k" by simp
  then have x: "0 < x" using assms(1) by linarith
  have a: "(2::real) powr real_of_int k = 2 powi k" by (rule powr_real_of_int') simp_all
  have "(2::real) powr real_of_int (k + 1) = 2 powi (k + 1)" by (rule powr_real_of_int') simp_all
  then have b: "(2::real) powr (real_of_int k + 1) = 2 powi (k + 1)" by (simp add: add.commute)
  have "(2::real) powr real_of_int k \<le> x \<and> x < 2 powr (real_of_int k + 1)"
    using assms a b by simp
  then show ?thesis using floor_log_eq_powr_iff[of x 2 k] x by simp
qed

lemma powi_neg: "n \<le> 0 \<Longrightarrow> (2::real) powi n = 1 / 2 ^ nat (- n)"
  by (simp add: power_int_def field_simps)

lemma powi_pos: "0 \<le> n \<Longrightarrow> (2::real) powi n = 2 ^ nat n"
  by (simp add: power_int_def)

lemma nearest_at:
  assumes "2 powi k \<le> \<bar>x\<bar>" "\<bar>x\<bar> < 2 powi (k + 1)" "- 1022 \<le> k"
  shows "nearest x = of_int (half_even (x / 2 powi (k - 52))) * 2 powi (k - 52)"
proof -
  have "(0::real) < 2 powi k" by simp
  then have "x \<noteq> 0" using assms(1) by linarith
  moreover have "\<lfloor>log 2 \<bar>x\<bar>\<rfloor> = k" using assms(1,2) by (rule floor_log2)
  moreover have "max (k - 52) (- 1074) = k - 52" using assms(3) by simp
  ultimately show ?thesis unfolding nearest_def Let_def by simp
qed

lemma nearest_small:
  assumes "2 powi k \<le> \<bar>x\<bar>" "\<bar>x\<bar> < 2 powi (k + 1)" "- 1022 \<le> k" "k \<le> 52"
  shows "nearest x = of_int (half_even (x * 2 ^ nat (52 - k))) / 2 ^ nat (52 - k)"
  using nearest_at[OF assms(1-3)] assms(4) by (simp add: powi_neg)

lemma nearest_exact:
  assumes "2 powi k \<le> \<bar>x\<bar>" "\<bar>x\<bar> < 2 powi (k + 1)" "- 1022 \<le> k" "k \<le> 52"
    and "x * 2 ^ nat (52 - k) = of_int m"
  shows "nearest x = x"
proof -
  have "nearest x = of_int m / 2 ^ nat (52 - k)"
    using nearest_small[OF assms(1-4)] assms(5) by (simp add: half_even_of_int)
  also have "\<dots> = x" using assms(5)[symmetric] by simp
  finally show ?thesis .
qed

lemma nearest_1: "nearest 1 = 1"
  by (rule nearest_exact[of 0 _ "2 ^ 52"]) (simp_all add: powi_pos)

lemma nearest_minus_2: "nearest (- 2) = - 2"
  by (rule nearest_exact[of 1 _ "- (2 ^ 52)"]) (simp_all add: powi_pos)

lemma nearest_above_1: "nearest (1 + 1 / 2 ^ 51) = 1 + 1 / 2 ^ 51"
proof (rule nearest_exact[of 0 _ "4503599627370498"])
  show "2 powi 0 \<le> \<bar>1 + 1 / 2 ^ 51 :: real\<bar>" by simp
  show "\<bar>1 + 1 / 2 ^ 51 :: real\<bar> < 2 powi (0 + 1)" by simp
  show "(1 + 1 / 2 ^ 51) * 2 ^ nat (52 - 0) = real_of_int 4503599627370498" by (simp add: field_simps)
qed simp_all

lemma half_even_999600: "half_even (999600 / 1000 * 2 ^ 43) = 8792574584999117"
  by (rule half_even_near) simp

lemma nearest_999600: "nearest (999600 / 1000) = 8792574584999117 / 2 ^ 43"
proof -
  have "nearest (999600 / 1000) = of_int (half_even (999600 / 1000 * 2 ^ nat (52 - 9))) / 2 ^ nat (52 - 9)"
    by (rule nearest_small) (simp_all add: powi_pos)
  then show ?thesis using half_even_999600 by simp
qed

lemma nearest_tolerance: "1 / 2 ^ 50 \<le> nearest (1 / 10 ^ 15)"
proof -
  have "nearest (1 / 10 ^ 15) = of_int (half_even (1 / 10 ^ 15 * 2 ^ nat (52 - (- 50)))) / 2 ^ nat (52 - (- 50))"
    by (rule nearest_small) (simp_all add: powi_neg)
  moreover have "half_even (1 / 10 ^ 15 * 2 ^ nat (52 - (- 50))) = 5070602400912918"
    by (rule half_even_near) simp
  ultimately show ?thesis by simp
qed

section \<open>Properties of the circuit construction\<close>

lemma rem_nonneg: "0 \<le> a \<Longrightarrow> 0 < b \<Longrightarrow> rem a b = a mod b"
  by (cases "a = 0") (simp_all add: rem_def)

lemma rem2_even: "rem a 2 = 0 \<longleftrightarrow> even a"
  by (auto simp: rem_def sgn_if)

lemma item_ok: "0 \<le> i \<Longrightarrow> i < int (length xs) \<Longrightarrow> item xs i = Inr (xs ! nat i)"
  by (simp add: item_def)

lemma with_item_ok: "0 \<le> i \<Longrightarrow> i < int (length xs) \<Longrightarrow> with_item xs i v = Inr (xs[nat i := v])"
  by (simp add: with_item_def)

subsection \<open>Integers that stay in range\<close>

lemma wrap_id: "- (2 ^ 63) \<le> x \<Longrightarrow> x \<le> 2 ^ 63 - 1 \<Longrightarrow> wrap x = x"
  by (simp add: wrap_def)

lemma wrap_numeral: "- 9223372036854775808 \<le> x \<Longrightarrow> x \<le> 9223372036854775807 \<Longrightarrow> wrap x = x"
  by (simp add: wrap_def)

lemma square_bound:
  assumes "1 \<le> n" "n * n \<le> 2 ^ 63 - 1"
  shows "n \<le> 2 ^ 63 - (1::int)"
proof -
  have "n * 1 \<le> n * n" using assms(1) by (intro mult_left_mono) auto
  then show ?thesis using assms(2) by simp
qed

subsection \<open>\<^verbatim>\<open>GetQubitIndex\<close> is a bijection\<close>

lemma row_bounds:
  assumes "0 \<le> row" "row < n"
  shows "0 \<le> n * row \<and> n * row + n \<le> n * (n::int)"
proof -
  have n: "0 < n" using assms by linarith
  have "n * row \<le> n * (n - 1)" using assms n by (intro mult_left_mono) auto
  then have "n * row + n \<le> n * n" by (simp add: algebra_simps)
  moreover have "0 \<le> n * row" using assms n by simp
  ultimately show ?thesis by simp
qed

text \<open>On a lattice whose number of sites is an \<^verbatim>\<open>Int\<close>, no operation of \<^verbatim>\<open>GetQubitIndex\<close>
  wraps.\<close>

lemma GetQubitIndex_eq:
  assumes "0 \<le> row" "row < n" "0 \<le> col" "col < n" "n * n \<le> 2 ^ 63 - 1"
  shows "GetQubitIndex row col n = n * row + (if even row then col else n - 1 - col)"
proof -
  have n: "1 \<le> n" using assms by linarith
  have nb: "n \<le> 2 ^ 63 - 1" using square_bound[OF n assms(5)] .
  have rb: "0 \<le> n * row" "n * row + n \<le> n * n" using row_bounds[OF assms(1,2)] by simp_all
  have sq: "n * n \<le> 9223372036854775807" using assms(5) by simp
  have nb': "n \<le> 9223372036854775807" using nb by simp
  have w1: "wrap (n * row) = n * row" using rb sq n by (intro wrap_numeral) linarith+
  have w2: "wrap (n - 1) = n - 1" using n nb' by (intro wrap_numeral) linarith+
  have w3: "wrap (n - 1 - col) = n - 1 - col" using n nb' assms(3,4) by (intro wrap_numeral) linarith+
  have w4: "wrap (col + n * row) = col + n * row" using rb assms(3,4) sq by (intro wrap_numeral) linarith+
  have w5: "wrap (n - 1 - col + n * row) = n - 1 - col + n * row"
    using rb assms(3,4) sq by (intro wrap_numeral) linarith+
  show ?thesis by (simp add: GetQubitIndex_def rem2_even w1 w2 w3 w4 w5)
qed

lemma snake_div:
  "0 \<le> col \<Longrightarrow> col < n \<Longrightarrow> (n * row + (if even row then col else n - 1 - col)) div n = (row::int)"
  by auto

lemma snake_mod:
  "0 \<le> col \<Longrightarrow> col < n \<Longrightarrow>
     (n * row + (if even row then col else n - 1 - col)) mod n = (if even row then col else n - 1 - col)"
  for row :: int
  by auto

lemma GetQubitIndex_bounds:
  assumes "0 \<le> row" "row < n" "0 \<le> col" "col < n" "n * n \<le> 2 ^ 63 - 1"
  shows "0 \<le> GetQubitIndex row col n \<and> GetQubitIndex row col n < n * n"
  using row_bounds[OF assms(1,2)] assms(3,4) by (auto simp: GetQubitIndex_eq[OF assms])

lemma GetQubitIndex_inj:
  assumes "n * n \<le> 2 ^ 63 - 1"
    and "0 \<le> r1" "r1 < n" "0 \<le> c1" "c1 < n"
    and "0 \<le> r2" "r2 < n" "0 \<le> c2" "c2 < n"
    and "GetQubitIndex r1 c1 n = GetQubitIndex r2 c2 n"
  shows "r1 = r2 \<and> c1 = c2"
proof -
  have e: "n * r1 + (if even r1 then c1 else n - 1 - c1) = n * r2 + (if even r2 then c2 else n - 1 - c2)"
    using assms(10) GetQubitIndex_eq[OF assms(2-5) assms(1)] GetQubitIndex_eq[OF assms(6-9) assms(1)]
    by simp
  have r: "r1 = r2"
    using snake_div[OF assms(4,5), of r1] snake_div[OF assms(8,9), of r2] e by simp
  have "(if even r1 then c1 else n - 1 - c1) = (if even r2 then c2 else n - 1 - c2)"
    using snake_mod[OF assms(4,5), of r1] snake_mod[OF assms(8,9), of r2] e by simp
  with r show ?thesis by (auto split: if_splits)
qed

lemma GetQubitIndex_surj:
  assumes "1 \<le> n" "n * n \<le> 2 ^ 63 - 1" "0 \<le> k" "k < n * n"
  shows "\<exists>row col. 0 \<le> row \<and> row < n \<and> 0 \<le> col \<and> col < n \<and> GetQubitIndex row col n = k"
proof -
  have n: "0 < n" using assms by simp
  define row where "row = k div n"
  define c where "c = k mod n"
  define col where "col = (if even row then c else n - 1 - c)"
  have c: "0 \<le> c" "c < n" using n by (simp_all add: c_def)
  have row: "0 \<le> row" using assms n by (simp add: row_def pos_imp_zdiv_nonneg_iff)
  have "n * row + c = k" by (simp add: row_def c_def)
  then have "n * row < n * n" using assms c by linarith
  then have rown: "row < n" using n by (simp add: mult_less_cancel_left_pos)
  have col: "0 \<le> col" "col < n" using c by (auto simp: col_def)
  have "GetQubitIndex row col n = k"
    by (simp add: GetQubitIndex_eq[OF row rown col assms(2)]) (simp add: col_def row_def c_def)
  then show ?thesis using row rown col by blast
qed

text \<open>
  \<^bold>\<open>C8.\<close> As worded, for every \<open>n \<ge> 1\<close>, the claim fails: \<^verbatim>\<open>Int\<close> is 64 bits wide and
  \<open>n * row\<close> wraps. At \<open>n = 2\<^sup>6\<^sup>2\<close> the site \<open>(2, 0)\<close> gets the index \<open>- 2\<^sup>6\<^sup>3\<close>, outside
  \<open>{0, \<dots>, n\<^sup>2 - 1}\<close>, and the sites \<open>(4, 0)\<close> and \<open>(0, 0)\<close> share the index \<open>0\<close>.
\<close>
theorem GetQubitIndex_wraps:
  "GetQubitIndex 2 0 (2 ^ 62) = - (2 ^ 63)
   \<and> GetQubitIndex 4 0 (2 ^ 62) = 0 \<and> GetQubitIndex 0 0 (2 ^ 62) = 0
   \<and> (4::int) < 2 ^ 62"
  by (simp add: GetQubitIndex_def rem_def wrap_def)

text \<open>
  \<^bold>\<open>C8\<close>, amended. For every \<open>n \<ge> 1\<close> whose square is an \<^verbatim>\<open>Int\<close> (\<open>n\<^sup>2 \<le> 2\<^sup>6\<^sup>3 - 1\<close>) the
  snake-order map \<open>(row, col) \<mapsto> GetQubitIndex(row, col, n)\<close>, restricted to \<open>0 \<le> row < n\<close>
  and \<open>0 \<le> col < n\<close>, is a bijection onto \<open>{0, \<dots>, n\<^sup>2 - 1}\<close>: it is injective on the lattice
  sites, so two distinct sites never share an array index, and it reaches every index.
\<close>
theorem GetQubitIndex_bij:
  assumes "1 \<le> n" "n * n \<le> 2 ^ 63 - 1"
  shows "bij_betw (\<lambda>(row, col). GetQubitIndex row col n) ({0..<n} \<times> {0..<n}) {0..<n * n}"
  unfolding bij_betw_def
proof
  show "inj_on (\<lambda>(row, col). GetQubitIndex row col n) ({0..<n} \<times> {0..<n})"
    by (rule inj_onI) (auto dest: GetQubitIndex_inj[OF assms(2), rotated -1])
  show "(\<lambda>(row, col). GetQubitIndex row col n) ` ({0..<n} \<times> {0..<n}) = {0..<n * n}"
  proof (rule set_eqI, rule iffI)
    fix k assume "k \<in> (\<lambda>(row, col). GetQubitIndex row col n) ` ({0..<n} \<times> {0..<n})"
    then show "k \<in> {0..<n * n}" using GetQubitIndex_bounds[OF _ _ _ _ assms(2)] by auto
  next
    fix k assume "k \<in> {0..<n * n}"
    then obtain row col where "0 \<le> row" "row < n" "0 \<le> col" "col < n" "GetQubitIndex row col n = k"
      using GetQubitIndex_surj[of n k] assms by auto
    then show "k \<in> (\<lambda>(row, col). GetQubitIndex row col n) ` ({0..<n} \<times> {0..<n})"
      by force
  qed
qed

text \<open>The \<open>3 \<times> 3\<close> lattice.\<close>
theorem GetQubitIndex_bij_witness:
  "(1::int) \<le> 3 \<and> (3::int) * 3 \<le> 2 ^ 63 - 1
   \<and> bij_betw (\<lambda>(row, col). GetQubitIndex row col 3) ({0..<3} \<times> {0..<3}) {0..<3 * 3}"
  using GetQubitIndex_bij[of 3] by simp

subsection \<open>The sequences of \<^verbatim>\<open>SetSequences\<close>\<close>

lemma assign_values_char:
  assumes "length values = 10"
    and "\<forall>i\<in>set is. 1 \<le> i \<and> i < int (length a) \<and> i < int (length b)"
  shows "\<exists>a' b'. assign_values is values (a, b) = Inr (a', b')
           \<and> length a' = length a \<and> length b' = length b
           \<and> (\<forall>k. a' ! k = (if int k \<in> set is \<and> even k then values ! (k mod 10) else a ! k))
           \<and> (\<forall>k. b' ! k = (if int k \<in> set is \<and> odd k then values ! (k mod 10) else b ! k))"
  using assms(2)
proof (induction "is" arbitrary: a b)
  case Nil
  then show ?case by simp
next
  case (Cons i "is")
  have i: "1 \<le> i" "i < int (length a)" "i < int (length b)" using Cons.prems by auto
  have r10: "rem i 10 = i mod 10" using i by (simp add: rem_nonneg)
  have v: "item values (rem i 10) = Inr (values ! (nat i mod 10))"
    using assms(1) i by (simp add: r10 item_ok nat_mod_distrib)
  define v where "v = values ! (nat i mod 10)"
  show ?case
  proof (cases "even i")
    case True
    have pre: "\<forall>j\<in>set is. 1 \<le> j \<and> j < int (length (a[nat i := v])) \<and> j < int (length b)"
      using Cons.prems by auto
    from Cons.IH[OF pre] obtain a' b' where
      r: "assign_values is values (a[nat i := v], b) = Inr (a', b')"
        "length a' = length a" "length b' = length b"
        "\<forall>k. a' ! k = (if int k \<in> set is \<and> even k then values ! (k mod 10) else a[nat i := v] ! k)"
        "\<forall>k. b' ! k = (if int k \<in> set is \<and> odd k then values ! (k mod 10) else b ! k)"
      by auto
    have step: "assign_values (i # is) values (a, b) = Inr (a', b')"
      using True i r(1) by (simp add: v rem2_even with_item_ok v_def)
    have ev: "\<And>k. int k = i \<Longrightarrow> even k" using True by auto
    have "\<forall>k. a' ! k = (if int k \<in> set (i # is) \<and> even k then values ! (k mod 10) else a ! k)"
      using r(4) i True by (auto simp: v_def nth_list_update even_nat_iff)
    moreover have "\<forall>k. b' ! k = (if int k \<in> set (i # is) \<and> odd k then values ! (k mod 10) else b ! k)"
      using r(5) True by auto
    ultimately show ?thesis using step r(2,3) by blast
  next
    case False
    have pre: "\<forall>j\<in>set is. 1 \<le> j \<and> j < int (length a) \<and> j < int (length (b[nat i := v]))"
      using Cons.prems by auto
    from Cons.IH[OF pre] obtain a' b' where
      r: "assign_values is values (a, b[nat i := v]) = Inr (a', b')"
        "length a' = length a" "length b' = length b"
        "\<forall>k. a' ! k = (if int k \<in> set is \<and> even k then values ! (k mod 10) else a ! k)"
        "\<forall>k. b' ! k = (if int k \<in> set is \<and> odd k then values ! (k mod 10) else b[nat i := v] ! k)"
      by auto
    have step: "assign_values (i # is) values (a, b) = Inr (a', b')"
      using False i r(1) by (simp add: v rem2_even with_item_ok v_def)
    have "\<forall>k. b' ! k = (if int k \<in> set (i # is) \<and> odd k then values ! (k mod 10) else b ! k)"
      using r(5) i False by (auto simp: v_def nth_list_update even_nat_iff)
    moreover have "\<forall>k. a' ! k = (if int k \<in> set (i # is) \<and> even k then values ! (k mod 10) else a ! k)"
      using r(4) False by auto
    ultimately show ?thesis using step r(2,3) by blast
  qed
qed

lemma SetSequences_char:
  assumes "1 \<le> len"
  shows "\<exists>seqA seqB. SetSequences len p dt J g = Inr (seqA, seqB)
           \<and> int (length seqA) = len \<and> int (length seqB) = len
           \<and> (\<forall>k. int k < len \<longrightarrow> seqA ! k =
                (if k = 0 \<or> int k = len - 1 then - J * p * dt / 2
                 else if even k then values_of p dt J g ! (k mod 10) else 0))
           \<and> (\<forall>k. int k < len \<longrightarrow> seqB ! k =
                (if 1 \<le> k \<and> int k \<le> len - 2 \<and> odd k then values_of p dt J g ! (k mod 10) else 0))"
proof -
  define a where "a = (replicate (nat len) (0::real))[0 := - J * p * dt / 2, nat (len - 1) := - J * p * dt / 2]"
  define b where "b = replicate (nat len) (0::real)"
  have pre: "\<forall>i\<in>set [1..len - 2]. 1 \<le> i \<and> i < int (length a) \<and> i < int (length b)"
    by (auto simp: a_def b_def)
  have len10: "length (values_of p dt J g) = 10" by (simp add: values_of_def)
  from assign_values_char[OF len10 pre] obtain a' b' where
    r: "assign_values [1..len - 2] (values_of p dt J g) (a, b) = Inr (a', b')"
       "length a' = length a" "length b' = length b"
       "\<forall>k. a' ! k = (if int k \<in> set [1..len - 2] \<and> even k then values_of p dt J g ! (k mod 10) else a ! k)"
       "\<forall>k. b' ! k = (if int k \<in> set [1..len - 2] \<and> odd k then values_of p dt J g ! (k mod 10) else b ! k)"
    by blast
  have S: "SetSequences len p dt J g = Inr (a', b')"
    using assms r(1) by (simp add: SetSequences_def sized_def with_item_ok a_def b_def values_of_def)
  have A: "\<forall>k. int k < len \<longrightarrow> a' ! k =
                (if k = 0 \<or> int k = len - 1 then - J * p * dt / 2
                 else if even k then values_of p dt J g ! (k mod 10) else 0)"
    using assms r(4) by (auto simp: a_def nth_list_update)
  have B: "\<forall>k. int k < len \<longrightarrow> b' ! k =
                (if 1 \<le> k \<and> int k \<le> len - 2 \<and> odd k then values_of p dt J g ! (k mod 10) else 0)"
    using assms r(5) by (auto simp: b_def)
  have "int (length a') = len" "int (length b') = len" using assms r(2,3) by (simp_all add: a_def b_def)
  with S A B show ?thesis by blast
qed

lemma SetSequences_negative: "len < 0 \<Longrightarrow> SetSequences len p dt J g = Inl NegativeArraySize"
  by (simp add: SetSequences_def sized_def)

text \<open>
  \<^bold>\<open>C10.\<close> For every odd \<open>len \<ge> 3\<close> and all \<open>p\<close>, \<open>dt\<close>, \<open>J\<close>, \<open>g\<close>, \<^verbatim>\<open>SetSequences\<close>
  returns two arrays of length \<open>len\<close>; \<open>seqA\<close> is \<open>0\<close> at every odd index, \<open>seqB\<close> is \<open>0\<close> at
  every even index (so at its first and last), and the first and last entries of \<open>seqA\<close>
  are \<open>- J p dt / 2\<close>.
\<close>
theorem SetSequences_shape:
  assumes "odd len" "3 \<le> len"
  shows "\<exists>seqA seqB. SetSequences len p dt J g = Inr (seqA, seqB)
           \<and> int (length seqA) = len \<and> int (length seqB) = len
           \<and> (\<forall>i. 0 \<le> i \<and> i < len \<and> odd i \<longrightarrow> seqA ! nat i = 0)
           \<and> (\<forall>i. 0 \<le> i \<and> i < len \<and> even i \<longrightarrow> seqB ! nat i = 0)
           \<and> seqB ! 0 = 0 \<and> seqB ! nat (len - 1) = 0
           \<and> seqA ! 0 = - J * p * dt / 2 \<and> seqA ! nat (len - 1) = - J * p * dt / 2"
proof -
  have len: "1 \<le> len" using assms(2) by simp
  from SetSequences_char[OF len, of p dt J g] obtain seqA seqB where
    S: "SetSequences len p dt J g = Inr (seqA, seqB)"
       "int (length seqA) = len" "int (length seqB) = len"
    and A: "\<And>k. int k < len \<Longrightarrow> seqA ! k =
                (if k = 0 \<or> int k = len - 1 then - J * p * dt / 2
                 else if even k then values_of p dt J g ! (k mod 10) else 0)"
    and B: "\<And>k. int k < len \<Longrightarrow> seqB ! k =
                (if 1 \<le> k \<and> int k \<le> len - 2 \<and> odd k then values_of p dt J g ! (k mod 10) else 0)"
    by blast
  have oddA: "seqA ! nat i = 0" if "0 \<le> i \<and> i < len \<and> odd i" for i
  proof -
    have "odd (nat i)" using that by (simp add: even_nat_iff)
    moreover have "int (nat i) \<noteq> len - 1" using that assms(1) by auto
    moreover have "nat i \<noteq> 0" using that by auto
    ultimately show ?thesis using A[of "nat i"] that by simp
  qed
  have evenB: "seqB ! nat i = 0" if "0 \<le> i \<and> i < len \<and> even i" for i
  proof -
    have "even (nat i)" using that by (simp add: even_nat_iff)
    then show ?thesis using B[of "nat i"] that by simp
  qed
  have b0: "seqB ! 0 = 0" using evenB[of 0] len by simp
  have bl: "seqB ! nat (len - 1) = 0" using evenB[of "len - 1"] assms by simp
  have a0: "seqA ! 0 = - J * p * dt / 2" using A[of 0] len by simp
  have al: "seqA ! nat (len - 1) = - J * p * dt / 2" using A[of "nat (len - 1)"] len by simp
  show ?thesis using S oddA evenB b0 bl a0 al by blast
qed

text \<open>One time step: \<open>len = 11\<close>.\<close>
theorem SetSequences_shape_witness:
  "odd (11::int) \<and> (3::int) \<le> 11 \<and>
   (\<exists>seqA seqB. SetSequences 11 trotter_p (1 / 4) 1 1 = Inr (seqA, seqB)
           \<and> int (length seqA) = 11 \<and> int (length seqB) = 11
           \<and> seqA ! nat 5 = 0 \<and> seqB ! nat 4 = 0
           \<and> seqB ! 0 = 0 \<and> seqB ! nat (11 - 1) = 0
           \<and> seqA ! 0 = - 1 * trotter_p * (1 / 4) / 2
           \<and> seqA ! nat (11 - 1) = - 1 * trotter_p * (1 / 4) / 2)"
proof -
  have h: "odd (11::int)" "(3::int) \<le> 11" by simp_all
  from SetSequences_shape[OF h, of trotter_p "1 / 4" 1 1] obtain seqA seqB where
    r: "SetSequences 11 trotter_p (1 / 4) 1 1 = Inr (seqA, seqB)"
       "int (length seqA) = 11" "int (length seqB) = 11"
       "\<forall>i. 0 \<le> i \<and> i < 11 \<and> odd i \<longrightarrow> seqA ! nat i = 0"
       "\<forall>i. 0 \<le> i \<and> i < 11 \<and> even i \<longrightarrow> seqB ! nat i = 0"
       "seqB ! 0 = 0" "seqB ! nat (11 - 1) = 0"
       "seqA ! 0 = - 1 * trotter_p * (1 / 4) / 2" "seqA ! nat (11 - 1) = - 1 * trotter_p * (1 / 4) / 2"
    by blast
  have "seqA ! nat 5 = 0" using r(4)[rule_format, of 5] by simp
  moreover have "seqB ! nat 4 = 0" using r(5)[rule_format, of 4] by simp
  ultimately show ?thesis using h r(1,2,3,6,7,8,9) by blast
qed

text \<open>What \<^verbatim>\<open>SetSequences\<close> stores at every position: the factor of the formula, scaled by
  \<open>- J\<close> in \<open>seqA\<close> and by \<open>g\<close> in \<open>seqB\<close>.\<close>
lemma SetSequences_values:
  assumes "0 \<le> t" "SetSequences (10 * t + 1) p dt J g = Inr (seqA, seqB)" "0 \<le> k" "k < 10 * t + 1"
  shows "even k \<longrightarrow> seqA ! nat k = - J * U4_factor p (10 * t + 1) k * dt"
    and "odd k \<longrightarrow> seqB ! nat k = g * U4_factor p (10 * t + 1) k * dt"
proof -
  have len: "1 \<le> 10 * t + 1" using assms(1) by simp
  from SetSequences_char[OF len, of p dt J g] assms(2) have
    A: "\<And>k. int k < 10 * t + 1 \<Longrightarrow> seqA ! k =
                (if k = 0 \<or> int k = 10 * t + 1 - 1 then - J * p * dt / 2
                 else if even k then values_of p dt J g ! (k mod 10) else 0)"
    and B: "\<And>k. int k < 10 * t + 1 \<Longrightarrow> seqB ! k =
                (if 1 \<le> k \<and> int k \<le> 10 * t + 1 - 2 \<and> odd k then values_of p dt J g ! (k mod 10) else 0)"
    by auto
  define m where "m = nat k mod 10"
  have m: "m < 10" "k mod 10 = int m" using assms(3) by (simp_all add: m_def zmod_int)
  have cases: "m = 0 \<or> m = 1 \<or> m = 2 \<or> m = 3 \<or> m = 4 \<or> m = 5 \<or> m = 6 \<or> m = 7 \<or> m = 8 \<or> m = 9"
    using m(1) by arith
  have "even (k mod 10) \<longleftrightarrow> even k" by (rule dvd_mod_iff) simp
  then have par: "even k \<longleftrightarrow> even m" using m(2) by simp
  show "even k \<longrightarrow> seqA ! nat k = - J * U4_factor p (10 * t + 1) k * dt"
  proof
    assume e: "even k"
    have en: "even (nat k)" using e assms(3) by (simp add: even_nat_iff)
    show "seqA ! nat k = - J * U4_factor p (10 * t + 1) k * dt"
    proof (cases "k = 0 \<or> k = 10 * t")
      case True
      then show ?thesis using A[of "nat k"] assms(3,4) by (auto simp: U4_factor_def)
    next
      case False
      then have "seqA ! nat k = values_of p dt J g ! m"
        using A[of "nat k"] assms(3,4) en by (auto simp: m_def)
      moreover have "m = 0 \<or> m = 2 \<or> m = 4 \<or> m = 6 \<or> m = 8" using cases par e by auto
      ultimately show ?thesis using False m(2) by (auto simp: U4_factor_def values_of_def)
    qed
  qed
  show "odd k \<longrightarrow> seqB ! nat k = g * U4_factor p (10 * t + 1) k * dt"
  proof
    assume o: "odd k"
    have on: "odd (nat k)" using o assms(3) by (simp add: even_nat_iff)
    have "k \<noteq> 0" "k \<noteq> 10 * t" using o by auto
    then have "seqB ! nat k = values_of p dt J g ! m"
      using B[of "nat k"] assms(3,4) on by (auto simp: m_def)
    moreover have "m = 1 \<or> m = 3 \<or> m = 5 \<or> m = 7 \<or> m = 9" using cases par o by auto
    ultimately show "seqB ! nat k = g * U4_factor p (10 * t + 1) k * dt"
      using \<open>k \<noteq> 0\<close> \<open>k \<noteq> 10 * t\<close> m(2) by (auto simp: U4_factor_def values_of_def)
  qed
qed

subsection \<open>The loops run to their end\<close>

lemma for_layers_ok:
  assumes "\<forall>x\<in>set xs. \<exists>g. body x = Inr g"
  shows "\<exists>gs. for_layers xs body = Inr gs \<and> length gs = length xs
            \<and> (\<forall>k<length xs. body (xs ! k) = Inr (gs ! k))"
  using assms
proof (induction xs)
  case Nil
  then show ?case by simp
next
  case (Cons x xs)
  then obtain g where g: "body x = Inr g" by auto
  from Cons obtain gs where gs: "for_layers xs body = Inr gs" "length gs = length xs"
    "\<forall>k<length xs. body (xs ! k) = Inr (gs ! k)" by auto
  have "for_layers (x # xs) body = Inr (g # gs)" using g gs(1) by simp
  moreover have "\<forall>k<length (x # xs). body ((x # xs) ! k) = Inr ((g # gs) ! k)"
    using g gs(3) by (auto simp: nth_Cons split: nat.splits)
  ultimately show ?case using gs(2) by auto
qed

lemma for_each_ok:
  assumes "\<forall>x\<in>set xs. \<exists>g. body x = Inr g"
  shows "\<exists>gs. for_each xs body = Inr gs"
  using for_layers_ok[OF assms] by (auto simp: for_each_def)

lemma range2_bounds: "j \<in> set (range2 a b) \<Longrightarrow> a \<le> j \<and> j \<le> b"
  by (simp add: range2_def)

lemma for_each_head_fails: "body x = Inl e \<Longrightarrow> for_each (x # xs) body = Inl e"
  by (simp add: for_each_def)

lemma upto_head: "i \<le> j \<Longrightarrow> [i..j] = i # [i + 1..j]"
  by (rule upto_rec1)

lemma pair_indices_bounds:
  assumes "n * n \<le> 2 ^ 63 - 1" "0 \<le> i" "i \<le> n - 1" "0 \<le> j" "j \<le> n - 2"
  shows "0 \<le> fst (pair_indices n dir i j) \<and> fst (pair_indices n dir i j) < n * n
       \<and> 0 \<le> snd (pair_indices n dir i j) \<and> snd (pair_indices n dir i j) < n * n"
proof -
  have n: "1 \<le> n" using assms by linarith
  have nb: "n \<le> 9223372036854775807" using square_bound[OF n assms(1)] by simp
  have wi: "wrap (i + 1) = i + 1" using assms(2,3) nb by (intro wrap_numeral) linarith+
  have wj: "wrap (j + 1) = j + 1" using assms(4,5) nb by (intro wrap_numeral) linarith+
  show ?thesis
  proof (cases dir)
    case True
    have "0 \<le> GetQubitIndex i j n \<and> GetQubitIndex i j n < n * n"
      using assms by (intro GetQubitIndex_bounds) auto
    moreover have "0 \<le> GetQubitIndex i (j + 1) n \<and> GetQubitIndex i (j + 1) n < n * n"
      using assms by (intro GetQubitIndex_bounds) auto
    ultimately show ?thesis using True by (simp add: pair_indices_def wj)
  next
    case False
    have "0 \<le> GetQubitIndex j i n \<and> GetQubitIndex j i n < n * n"
      using assms by (intro GetQubitIndex_bounds) auto
    moreover have "0 \<le> GetQubitIndex (j + 1) i n \<and> GetQubitIndex (j + 1) i n < n * n"
      using assms by (intro GetQubitIndex_bounds) auto
    ultimately show ?thesis using False by (simp add: pair_indices_def wj)
  qed
qed

lemma zz_pair_ok:
  assumes "n * n \<le> 2 ^ 63 - 1" "int (length qs) = n * n" "0 \<le> i" "i \<le> n - 1" "0 \<le> j" "j \<le> n - 2"
  shows "\<exists>g. zz_pair n qs theta dir i j = Inr g"
proof -
  obtain ind1 ind2 where p: "pair_indices n dir i j = (ind1, ind2)" by (cases "pair_indices n dir i j")
  have "0 \<le> ind1 \<and> ind1 < n * n \<and> 0 \<le> ind2 \<and> ind2 < n * n"
    using pair_indices_bounds[OF assms(1,3-6), of dir] p by simp
  then show ?thesis using assms(2) p by (simp add: zz_pair_def item_ok)
qed

lemma loop_bounds:
  assumes "1 \<le> n" "n * n \<le> 2 ^ 63 - 1"
  shows "wrap (n - 1) = n - 1" "wrap (n - 2) = n - 2"
proof -
  have nb: "n \<le> 9223372036854775807" using square_bound[OF assms] by simp
  show "wrap (n - 1) = n - 1" using assms(1) nb by (intro wrap_numeral) linarith+
  show "wrap (n - 2) = n - 2" using assms(1) nb by (intro wrap_numeral) linarith+
qed

lemma ApplyDoubleZ_ok:
  assumes "1 \<le> n" "n * n \<le> 2 ^ 63 - 1" "int (length qs) = n * n"
  shows "\<exists>gs. ApplyDoubleZ n qs theta dir grp = Inr gs"
proof -
  define start :: int where "start = (if grp then 0 else 1)"
  have "\<exists>g. for_each (range2 start (n - 2)) (\<lambda>j. zz_pair n qs theta dir i j) = Inr g"
    if "i \<in> set [0..n - 1]" for i
  proof (rule for_each_ok, rule ballI)
    fix j assume "j \<in> set (range2 start (n - 2))"
    then have "0 \<le> j" "j \<le> n - 2" using range2_bounds[of j start "n - 2"] by (auto simp: start_def split: if_splits)
    then show "\<exists>g. zz_pair n qs theta dir i j = Inr g" using that assms(2,3) by (intro zz_pair_ok) auto
  qed
  then have "\<exists>gs. for_each [0..n - 1] (\<lambda>i. for_each (range2 start (n - 2)) (\<lambda>j. zz_pair n qs theta dir i j)) = Inr gs"
    by (intro for_each_ok) blast
  then show ?thesis by (simp add: ApplyDoubleZ_def start_def loop_bounds[OF assms(1,2)])
qed

lemma exp_term_ok:
  assumes "1 \<le> N" "N * N \<le> 2 ^ 63 - 1"
    and "int (length qs) = N * N" "0 \<le> i" "i < int (length seqA)" "i < int (length seqB)"
  shows "\<exists>g. exp_term N qs seqA seqB i = Inr g"
proof (cases "rem i 2 = 0")
  case True
  then show ?thesis using assms by (simp add: exp_term_def item_ok)
next
  case False
  have "\<exists>gs. for_each [(True, True), (True, False), (False, True), (False, False)]
             (\<lambda>(dir, grp).
                case item seqB i of Inl e \<Rightarrow> Inl e | Inr b \<Rightarrow> ApplyDoubleZ N qs b dir grp) = Inr gs"
  proof (rule for_each_ok, rule ballI)
    fix x :: "bool \<times> bool"
    obtain dir grp where x: "x = (dir, grp)" by (cases x)
    obtain gs where "ApplyDoubleZ N qs (seqB ! nat i) dir grp = Inr gs"
      using ApplyDoubleZ_ok[OF assms(1-3)] by blast
    then show "\<exists>g. (case x of (dir, grp) \<Rightarrow>
                case item seqB i of Inl e \<Rightarrow> Inl e | Inr b \<Rightarrow> ApplyDoubleZ N qs b dir grp) = Inr g"
      using assms(4,6) by (simp add: x item_ok)
  qed
  then show ?thesis using False by (simp add: exp_term_def)
qed

lemma exp_term_even:
  assumes "even i" "0 \<le> i" "i < int (length seqA)"
  shows "exp_term N qs seqA seqB i = Inr (ApplyAllX qs (seqA ! nat i))"
  using assms by (simp add: exp_term_def rem2_even item_ok)

lemma exp_term_odd:
  assumes "odd i" "0 \<le> i" "i < int (length seqB)"
  shows "exp_term N qs seqA seqB i =
           for_each [(True, True), (True, False), (False, True), (False, False)]
             (\<lambda>(dir, grp). ApplyDoubleZ N qs (seqB ! nat i) dir grp)"
  using assms by (simp add: exp_term_def rem2_even item_ok)

text \<open>The main loop on sequences of the length it is given.\<close>

lemma main_loop_ok:
  assumes "1 \<le> N" "N * N \<le> 2 ^ 63 - 1" "int (length qs) = N * N"
    and "1 \<le> seqLen" "seqLen \<le> 2 ^ 63 - 1"
    and "int (length seqA) = seqLen" "int (length seqB) = seqLen"
  shows "\<exists>layers. main_loop N qs seqA seqB seqLen = Inr layers
           \<and> int (length layers) = seqLen
           \<and> (\<forall>i. 0 \<le> i \<and> i < seqLen \<longrightarrow> exp_term N qs seqA seqB i = Inr (layers ! nat i))"
proof -
  have w: "wrap (seqLen - 1) = seqLen - 1" using assms(4,5) by (intro wrap_id) simp_all
  have "\<forall>i\<in>set [0..seqLen - 1]. \<exists>g. exp_term N qs seqA seqB i = Inr g"
  proof
    fix i assume "i \<in> set [0..seqLen - 1]"
    then have "0 \<le> i" "i < int (length seqA)" "i < int (length seqB)" using assms(6,7) by auto
    then show "\<exists>g. exp_term N qs seqA seqB i = Inr g" using assms(1-3) by (intro exp_term_ok)
  qed
  from for_layers_ok[OF this] obtain layers where
    L: "for_layers [0..seqLen - 1] (exp_term N qs seqA seqB) = Inr layers"
       "length layers = length [0..seqLen - 1]"
       "\<forall>k<length [0..seqLen - 1]. exp_term N qs seqA seqB ([0..seqLen - 1] ! k) = Inr (layers ! k)"
    by blast
  have ll: "int (length layers) = seqLen" using L(2) assms(4) by simp
  have each: "exp_term N qs seqA seqB i = Inr (layers ! nat i)" if "0 \<le> i" "i < seqLen" for i
  proof -
    have "nat i < length [0..seqLen - 1]" using that assms(4) by simp
    moreover have "[0..seqLen - 1] ! nat i = i" using that by (simp add: nth_upto)
    ultimately show ?thesis using L(3) by fastforce
  qed
  show ?thesis using L(1) ll each by (simp add: main_loop_def w)
qed

subsection \<open>The number of steps\<close>

lemma nearest_0: "nearest 0 = 0"
  by (simp add: nearest_def)

lemma tolerance_pos: "0 \<le> nearest (1 / 10 ^ 15)"
  using nearest_tolerance by (rule order_trans[rotated]) simp

lemma Ceiling_1: "Ceiling 1 = 1"
  using tolerance_pos by (simp add: Ceiling_def Truncate_def nearest_1 nearest_0)

lemma Ceiling_minus_2: "Ceiling (- 2) = - 2"
  using tolerance_pos by (simp add: Ceiling_def Truncate_def nearest_minus_2 nearest_0)

lemma nearest_below_0: "nearest (- (1 / 2 ^ 51)) = - (1 / 2 ^ 51)"
proof (rule nearest_exact[of "- 51" _ "- (2 ^ 52)"])
  show "2 powi (- 51) \<le> \<bar>- (1 / 2 ^ 51) :: real\<bar>" by (simp add: powi_neg)
  show "\<bar>- (1 / 2 ^ 51) :: real\<bar> < 2 powi (- 51 + 1)" by (simp add: powi_neg)
  show "- (1 / 2 ^ 51) * 2 ^ nat (52 - (- 51)) = real_of_int (- (2 ^ 52))" by (simp add: field_simps)
qed simp_all

text \<open>The double \<open>1.0000000000000004\<close> is \<open>1 + 2\<^sup>-\<^sup>5\<^sup>1\<close>: its ceiling is \<open>2\<close>, \<^verbatim>\<open>Ceiling\<close> returns
  \<open>1\<close>.\<close>

lemma Ceiling_above_1: "Ceiling (1 + 1 / 2 ^ 51) = 1"
proof -
  have t: "Truncate (1 + 1 / 2 ^ 51) = 1"
  proof -
    have "\<lfloor>1 + 1 / 2 ^ 51 :: real\<rfloor> = 1" by (rule floor_unique) simp_all
    then show ?thesis by (simp add: Truncate_def)
  qed
  have r: "nearest (nearest (of_int 1) - (1 + 1 / 2 ^ 51)) = - (1 / 2 ^ 51)"
    using nearest_below_0 by (simp add: nearest_1)
  have "\<bar>- (1 / 2 ^ 51) :: real\<bar> \<le> 1 / 2 ^ 50" by simp
  then have "\<bar>- (1 / 2 ^ 51) :: real\<bar> \<le> nearest (1 / 10 ^ 15)"
    using nearest_tolerance by (rule order_trans)
  then show ?thesis unfolding Ceiling_def Let_def t r by simp
qed

lemma wrap_range: "- 9223372036854775808 \<le> wrap x \<and> wrap x \<le> 9223372036854775807"
proof -
  have "0 \<le> (x + 9223372036854775808) mod 18446744073709551616" by simp
  moreover have "(x + 9223372036854775808) mod 18446744073709551616 < 18446744073709551616" by simp
  ultimately show ?thesis unfolding wrap_def by simp
qed

lemma wrap_even: "even (wrap x) \<longleftrightarrow> even x"
proof -
  have "even ((x + 2 ^ 63) mod 2 ^ 64) \<longleftrightarrow> even (x + 2 ^ 63)"
    by (rule dvd_mod_iff) simp
  then show ?thesis by (simp add: wrap_def)
qed

lemma seqLen_odd: "odd (wrap (wrap (10 * t) + 1))"
  by (simp add: wrap_even)

subsection \<open>\<^verbatim>\<open>IsingModel2DSim\<close>\<close>

lemma register:
  assumes "1 \<le> N" "N * N \<le> 2 ^ 63 - 1"
  shows "Qubits (wrap (N * N)) = Inr [0..<nat (N * N)]"
proof -
  have "0 \<le> N * N" by simp
  moreover have "N * N \<le> 9223372036854775807" using assms(2) by simp
  ultimately have "wrap (N * N) = N * N" by (intro wrap_numeral) linarith+
  then show ?thesis by (simp add: Qubits_def)
qed

lemma IsingModel2DSim_unfold:
  assumes "Qubits (wrap (N * N)) = Inr qs"
    and "seqLen = wrap (wrap (10 * Ceiling (nearest (totTime / dt))) + 1)"
  shows "IsingModel2DSim N J g totTime dt eps noops outcome =
     (case SetSequences seqLen (1 / (4 - 4 powr (1 / 3))) dt J g of
        Inl e \<Rightarrow> Inl e
      | Inr (seqA, seqB) \<Rightarrow>
     (case main_loop N qs seqA seqB seqLen of
        Inl e \<Rightarrow> Inl e
      | Inr layers \<Rightarrow>
     (case for_each [1..noops]
             (\<lambda>k. case item qs 0 of
                     Inl e \<Rightarrow> Inl e
                   | Inr q \<Rightarrow> Ignore (outcome k) (Inr [M q])) of
        Inl e \<Rightarrow> Inl e
      | Inr ms \<Rightarrow> Inr (concat layers @ ms))))"
  unfolding IsingModel2DSim_def Let_def assms(1) assms(2) sum.case by (rule refl)

lemma noops_ok:
  assumes "1 \<le> N"
  shows "for_each [1..noops]
             (\<lambda>k. case item [0..<nat (N * N)] 0 of
                     Inl e \<Rightarrow> Inl e
                   | Inr q \<Rightarrow> Ignore (outcome k) (Inr [M q])) 
         = Inr (replicate (nat noops) (M 0))"
proof -
  have "1 * 1 \<le> N * N" using assms mult_mono[of 1 N 1 N] by simp
  then have q0: "item [0..<nat (N * N)] 0 = Inr 0" by (simp add: item_def)
  have "for_layers xs (\<lambda>k. case item [0..<nat (N * N)] 0 of
                     Inl e \<Rightarrow> Inl e
                   | Inr q \<Rightarrow> Ignore (outcome k) (Inr [M q])) = Inr (replicate (length xs) [M 0])" for xs :: "int list"
    by (induction xs) (simp_all add: q0 Ignore_def)
  then show ?thesis by (simp add: for_each_def)
qed

text \<open>Whatever the number of steps comes out as, on a register of \<open>N\<^sup>2\<close> qubits the run ends
  with a circuit or stops at the allocation of the sequences.\<close>

lemma IsingModel2DSim_ends:
  assumes "1 \<le> N" "N * N \<le> 2 ^ 63 - 1"
  shows "(\<exists>gs. IsingModel2DSim N J g totTime dt eps noops outcome = Inr gs)
       \<or> IsingModel2DSim N J g totTime dt eps noops outcome = Inl NegativeArraySize"
proof -
  define seqLen where "seqLen = wrap (wrap (10 * Ceiling (nearest (totTime / dt))) + 1)"
  let ?p = "1 / (4 - 4 powr (1 / 3)) :: real"
  let ?qs = "[0..<nat (N * N)]"
  note unfold = IsingModel2DSim_unfold[OF register[OF assms] seqLen_def, of J g eps noops outcome]
  have odd: "odd seqLen" unfolding seqLen_def by (rule seqLen_odd)
  show ?thesis
  proof (cases "seqLen < 0")
    case True
    then have "IsingModel2DSim N J g totTime dt eps noops outcome = Inl NegativeArraySize"
      unfolding unfold by (simp only: SetSequences_negative sum.case)
    then show ?thesis by simp
  next
    case False
    then have len: "1 \<le> seqLen" using odd by (cases "seqLen = 0") auto
    have up: "seqLen \<le> 2 ^ 63 - 1" using wrap_range[of "wrap (10 * Ceiling (nearest (totTime / dt))) + 1"]
      by (simp add: seqLen_def)
    from SetSequences_char[OF len, of ?p dt J g] obtain seqA seqB where
      S: "SetSequences seqLen ?p dt J g = Inr (seqA, seqB)"
        "int (length seqA) = seqLen" "int (length seqB) = seqLen"
      by blast
    have qs: "int (length ?qs) = N * N" by simp
    from main_loop_ok[OF assms qs len up S(2,3)] obtain layers where
      L: "main_loop N ?qs seqA seqB seqLen = Inr layers" by blast
    have "\<exists>gs. IsingModel2DSim N J g totTime dt eps noops outcome = Inr gs"
      by (simp only: unfold S(1) L noops_ok[OF assms(1)] sum.case prod.case) blast
    then show ?thesis by simp
  qed
qed

lemma IsingModel2DSim_negative_time:
  "IsingModel2DSim 1 1 1 (- 2) 1 (1 / 1000) 0 (\<lambda>k. False) = Inl NegativeArraySize"
proof -
  have s: "- 19 = wrap (wrap (10 * Ceiling (nearest (- 2 / 1))) + 1)"
    by (simp add: nearest_minus_2 Ceiling_minus_2 wrap_def)
  have q: "Qubits (wrap (1 * 1)) = Inr [0]" by (simp add: Qubits_def wrap_def)
  show ?thesis unfolding IsingModel2DSim_unfold[OF q s] by (simp add: SetSequences_negative)
qed

text \<open>
  \<^bold>\<open>C9.\<close> As worded, for every \<open>N \<ge> 1\<close>, the claim fails: \<open>N * N\<close> is a 64-bit product. At
  \<open>N = 2\<^sup>3\<^sup>2\<close> it wraps to \<open>0\<close>, the register \<^verbatim>\<open>Qubit[N * N]\<close> is empty, and the first
  \<^verbatim>\<open>qs[ind1]\<close> of the first \<^verbatim>\<open>ApplyDoubleZ\<close> is out of range.
\<close>
theorem IsingModel2DSim_empty_register:
  "wrap (2 ^ 32 * 2 ^ 32) = 0
   \<and> IsingModel2DSim (2 ^ 32) 1 1 1 1 (1 / 1000) 0 (\<lambda>k. False) = Inl IndexOutOfRange"
proof -
  let ?N = "2 ^ 32 :: int"
  let ?p = "1 / (4 - 4 powr (1 / 3)) :: real"
  have w: "wrap (?N * ?N) = 0" by (simp add: wrap_def)
  have q: "Qubits (wrap (?N * ?N)) = Inr []" unfolding w by (simp add: Qubits_def)
  have s: "11 = wrap (wrap (10 * Ceiling (nearest (1 / 1))) + 1)"
    by (simp add: nearest_1 Ceiling_1 wrap_def)
  from SetSequences_char[of 11 ?p 1 1 1] obtain seqA seqB where
    S: "SetSequences 11 ?p 1 1 1 = Inr (seqA, seqB)"
      "int (length seqA) = 11" "int (length seqB) = 11"
    by auto
  have zz: "zz_pair ?N [] theta dir i j = Inl IndexOutOfRange" for theta dir i j
    by (cases "pair_indices ?N dir i j") (simp add: zz_pair_def item_def)
  have r: "range2 0 (wrap (?N - 2)) = 0 # filter (\<lambda>j. (j - 0) mod 2 = 0) [1..wrap (?N - 2)]"
    unfolding range2_def by (subst upto_head) (simp_all add: wrap_def)
  have inner: "for_each (range2 0 (wrap (?N - 2))) (\<lambda>j. zz_pair ?N [] theta dir i j) = Inl IndexOutOfRange"
    for theta dir i
    unfolding r by (rule for_each_head_fails) (rule zz)
  have u: "[0..wrap (?N - 1)] = 0 # [1..wrap (?N - 1)]"
    by (subst upto_head) (simp_all add: wrap_def)
  have dz: "ApplyDoubleZ ?N [] theta True True = Inl IndexOutOfRange" for theta
    unfolding ApplyDoubleZ_def Let_def if_True u by (rule for_each_head_fails) (rule inner)
  have e0: "exp_term ?N [] seqA seqB 0 = Inr []"
    using exp_term_even[of 0 seqA ?N "[]" seqB] S(2) by (simp add: ApplyAllX_def)
  have "exp_term ?N [] seqA seqB 1 =
           for_each [(True, True), (True, False), (False, True), (False, False)]
             (\<lambda>(dir, grp). ApplyDoubleZ ?N [] (seqB ! nat 1) dir grp)"
    using S(3) by (intro exp_term_odd) simp_all
  also have "\<dots> = Inl IndexOutOfRange" by (rule for_each_head_fails) (simp only: prod.case dz)
  finally have e1: "exp_term ?N [] seqA seqB 1 = Inl IndexOutOfRange" .
  have l: "[0..wrap (11 - 1)] = 0 # 1 # [2..10]" by (simp add: wrap_def upto_rec1)
  have m: "main_loop ?N [] seqA seqB 11 = Inl IndexOutOfRange"
    unfolding main_loop_def l by (simp only: for_layers.simps e0 e1 sum.case)
  have "IsingModel2DSim ?N 1 1 1 1 (1 / 1000) 0 (\<lambda>k. False) = Inl IndexOutOfRange"
    unfolding IsingModel2DSim_unfold[OF q s] by (simp only: S(1) m sum.case prod.case)
  with w show ?thesis by simp
qed

text \<open>
  \<^bold>\<open>C9\<close>, amended. For every \<open>n \<ge> 1\<close> whose square is an \<^verbatim>\<open>Int\<close> (\<open>n\<^sup>2 \<le> 2\<^sup>6\<^sup>3 - 1\<close>) and every
  register \<open>qs\<close> of \<open>n\<^sup>2\<close> qubits, in every iteration \<open>(i, j)\<close> of \<^verbatim>\<open>ApplyDoubleZ\<close>, for either
  direction and either group, both computed indices \<open>ind1\<close> and \<open>ind2\<close> lie in
  \<open>{0, \<dots>, n\<^sup>2 - 1}\<close>, so the operation runs to its end without an index failure; and
  \<^verbatim>\<open>IsingModel2DSim\<close> with such an \<open>N = n\<close> never fails with an index out of range, the
  measurements of \<^verbatim>\<open>qs[0]\<close> at its end included.
\<close>
theorem ApplyDoubleZ_in_bounds:
  assumes "1 \<le> n" "n * n \<le> 2 ^ 63 - 1" "int (length qs) = n * n"
  shows "(i \<in> set [0..wrap (n - 1)] \<and> j \<in> set (range2 (if grp then 0 else 1) (wrap (n - 2))) \<longrightarrow>
            0 \<le> fst (pair_indices n dir i j) \<and> fst (pair_indices n dir i j) < int (length qs)
          \<and> 0 \<le> snd (pair_indices n dir i j) \<and> snd (pair_indices n dir i j) < int (length qs))
       \<and> (\<exists>gs. ApplyDoubleZ n qs theta dir grp = Inr gs)
       \<and> IsingModel2DSim n J g totTime dt eps noops outcome \<noteq> Inl IndexOutOfRange"
proof (intro conjI impI)
  assume ij: "i \<in> set [0..wrap (n - 1)] \<and> j \<in> set (range2 (if grp then 0 else 1) (wrap (n - 2)))"
  then have "0 \<le> i" "i \<le> n - 1" by (auto simp: loop_bounds[OF assms(1,2)])
  moreover have "0 \<le> j" "j \<le> n - 2"
    using ij range2_bounds[of j "if grp then 0 else 1" "n - 2"]
    by (auto simp: loop_bounds[OF assms(1,2)] split: if_splits)
  ultimately have b: "0 \<le> fst (pair_indices n dir i j) \<and> fst (pair_indices n dir i j) < n * n
       \<and> 0 \<le> snd (pair_indices n dir i j) \<and> snd (pair_indices n dir i j) < n * n"
    using assms(2) by (intro pair_indices_bounds)
  show "0 \<le> fst (pair_indices n dir i j)" using b by simp
  show "fst (pair_indices n dir i j) < int (length qs)" using b assms(3) by simp
  show "0 \<le> snd (pair_indices n dir i j)" using b by simp
  show "snd (pair_indices n dir i j) < int (length qs)" using b assms(3) by simp
next
  show "\<exists>gs. ApplyDoubleZ n qs theta dir grp = Inr gs" using assms by (rule ApplyDoubleZ_ok)
next
  show "IsingModel2DSim n J g totTime dt eps noops outcome \<noteq> Inl IndexOutOfRange"
    using IsingModel2DSim_ends[OF assms(1,2), of J g totTime dt eps noops outcome] by auto
qed

text \<open>The \<open>2 \<times> 2\<close> lattice, vertical direction, even group.\<close>
theorem ApplyDoubleZ_in_bounds_witness:
  "(1::int) \<le> 2 \<and> (2::int) * 2 \<le> 2 ^ 63 - 1 \<and> int (length [0, 1, 2, 3 :: nat]) = 2 * 2
   \<and> (0::int) \<in> set [0..wrap (2 - 1)] \<and> (0::int) \<in> set (range2 (if True then 0 else 1) (wrap (2 - 2)))
   \<and> 0 \<le> fst (pair_indices 2 False 0 0) \<and> fst (pair_indices 2 False 0 0) < 4
   \<and> 0 \<le> snd (pair_indices 2 False 0 0) \<and> snd (pair_indices 2 False 0 0) < 4
   \<and> (\<exists>gs. ApplyDoubleZ 2 [0, 1, 2, 3] 1 False True = Inr gs)
   \<and> IsingModel2DSim 2 1 1 1 1 (1 / 1000) 3 (\<lambda>k. False) \<noteq> Inl IndexOutOfRange"
proof -
  have h: "(1::int) \<le> 2" "(2::int) * 2 \<le> 2 ^ 63 - 1" "int (length [0, 1, 2, 3 :: nat]) = 2 * 2"
    by simp_all
  have m: "(0::int) \<in> set [0..wrap (2 - 1)]" "(0::int) \<in> set (range2 (if True then 0 else 1) (wrap (2 - 2)))"
    by (simp_all add: range2_def wrap_def)
  show ?thesis
    using ApplyDoubleZ_in_bounds[OF h, of 0 0 True False 1 1 1 1 1 "1 / 1000" 3 "\<lambda>k. False"] h m
    by simp
qed

text \<open>
  \<^bold>\<open>C6.\<close> The circuit construction is deterministic: for fixed
  \<open>(N, J, g, totTime, dt, eps, noops)\<close> any two runs, whatever their measurements return,
  end the same way and issue the same gates, with the same angles, on the same qubits, in
  the same order.
\<close>
theorem IsingModel2DSim_deterministic:
  "IsingModel2DSim N J g totTime dt eps noops outcome
     = IsingModel2DSim N J g totTime dt eps noops outcome'"
  by (simp add: IsingModel2DSim_def Ignore_def cong: sum.case_cong)

subsection \<open>The angles against the formula\<close>

lemma trotter_p_pos: "0 < trotter_p"
proof -
  have "(4::real) powr (1 / 3) < 4 powr 1" by (rule powr_less_mono) simp_all
  then show ?thesis by (simp add: trotter_p_def)
qed

lemma SetSequences_one_step: "SetSequences 11 p (1 / 4) 1 2 =
   Inr ([- (p / 8), 0, - (p / 4), 0, - ((1 - 3 * p) / 8), 0, - ((1 - 3 * p) / 8), 0, - (p / 4), 0, - (p / 8)],
        [0, p / 2, 0, p / 2, 0, (1 - 4 * p) / 2, 0, p / 2, 0, p / 2, 0])"
  by (simp add: SetSequences_def sized_def with_item_def item_def rem_def eval_nat_numeral upto_rec1)
    (simp add: field_simps)

lemma U4_angle_one_step: "map (U4_angle p (1 / 4) 1 2 11) [0..10] =
   [p / 4, - (p / 4), p / 2, - (p / 4), (1 - 3 * p) / 4, - ((1 - 4 * p) / 4), (1 - 3 * p) / 4,
    - (p / 4), p / 2, - (p / 4), p / 4]"
  by (simp add: U4_angle_def U4_factor_def upto_rec1) (simp add: field_simps)

lemma IsingModel2DSim_one_step: "IsingModel2DSim 1 1 2 (1 / 4) (1 / 4) (1 / 1000) 0 (\<lambda>k. False) =
   Inr [Rx (- (trotter_p / 4)) 0, Rx (- (trotter_p / 2)) 0, Rx (- ((1 - 3 * trotter_p) / 4)) 0,
        Rx (- ((1 - 3 * trotter_p) / 4)) 0, Rx (- (trotter_p / 2)) 0, Rx (- (trotter_p / 4)) 0]"
proof -
  have s: "11 = wrap (wrap (10 * Ceiling (nearest (1 / 4 / (1 / 4)))) + 1)"
    by (simp add: nearest_1 Ceiling_1 wrap_def)
  have q: "Qubits (wrap (1 * 1)) = Inr [0]" by (simp add: Qubits_def wrap_def)
  show ?thesis
    unfolding IsingModel2DSim_unfold[OF q s] trotter_p_def[symmetric]
    by (simp add: SetSequences_one_step main_loop_def exp_term_def item_def rem_def ApplyAllX_def
          ApplyDoubleZ_def for_each_def range2_def upto_rec1 eval_nat_numeral Ignore_def wrap_def)
qed

text \<open>
  \<^bold>\<open>C1.\<close> The claim is that the angles applied by \<^verbatim>\<open>IsingModel2DSim\<close> are the coefficients
  of the expanded fourth-order formula: the \<open>g\<close>-scaled factors at the even positions (the
  \<open>X\<close> rotations), the \<open>(- J)\<close>-scaled factors at the odd positions (the \<open>ZZ\<close> rotations). The
  code stores them the other way round. For one step with \<open>J = 1\<close>, \<open>g = 2\<close>, \<open>dt = 1/4\<close>:
  the sequences the code builds, the angles of the formula, and the circuit on one qubit,
  whose first rotation has the angle \<open>2 \<cdot> (- J p dt / 2)\<close> and not \<open>2 \<cdot> (g p dt / 2)\<close>.
\<close>
theorem IsingModel2DSim_swaps_couplings:
  "SetSequences 11 trotter_p (1 / 4) 1 2 =
     Inr ([- (trotter_p / 8), 0, - (trotter_p / 4), 0, - ((1 - 3 * trotter_p) / 8), 0,
           - ((1 - 3 * trotter_p) / 8), 0, - (trotter_p / 4), 0, - (trotter_p / 8)],
          [0, trotter_p / 2, 0, trotter_p / 2, 0, (1 - 4 * trotter_p) / 2, 0, trotter_p / 2, 0,
           trotter_p / 2, 0])
   \<and> map (U4_angle trotter_p (1 / 4) 1 2 11) [0..10] =
       [trotter_p / 4, - (trotter_p / 4), trotter_p / 2, - (trotter_p / 4),
        (1 - 3 * trotter_p) / 4, - ((1 - 4 * trotter_p) / 4), (1 - 3 * trotter_p) / 4,
        - (trotter_p / 4), trotter_p / 2, - (trotter_p / 4), trotter_p / 4]
   \<and> IsingModel2DSim 1 1 2 (1 / 4) (1 / 4) (1 / 1000) 0 (\<lambda>k. False) =
       Inr [Rx (- (trotter_p / 4)) 0, Rx (- (trotter_p / 2)) 0, Rx (- ((1 - 3 * trotter_p) / 4)) 0,
            Rx (- ((1 - 3 * trotter_p) / 4)) 0, Rx (- (trotter_p / 2)) 0, Rx (- (trotter_p / 4)) 0]
   \<and> - (trotter_p / 8) \<noteq> trotter_p / 4"
  using SetSequences_one_step[of trotter_p] U4_angle_one_step[of trotter_p] IsingModel2DSim_one_step trotter_p_pos by simp

subsection \<open>The exponential terms\<close>

lemma layers_2x2:
  "for_each [(True, True), (True, False), (False, True), (False, False)]
     (\<lambda>(dir, grp). ApplyDoubleZ 2 [0, 1, 2, 3] theta dir grp) =
   Inr [CNOT 0 1, Rz (2 * theta) 1, CNOT 0 1, CNOT 3 2, Rz (2 * theta) 2, CNOT 3 2,
        CNOT 0 3, Rz (2 * theta) 3, CNOT 0 3, CNOT 1 2, Rz (2 * theta) 2, CNOT 1 2]"
  by (simp add: ApplyDoubleZ_def for_each_def range2_def zz_pair_def pair_indices_def
        GetQubitIndex_def rem_def item_def wrap_def upto_rec1)

text \<open>
  \<^bold>\<open>C2.\<close> As worded, with \<open>t = \<lceil>totTime / dt\<rceil>\<close>, the claim fails: the library's \<^verbatim>\<open>Ceiling\<close>
  takes a value within \<open>10\<^sup>-\<^sup>1\<^sup>5\<close> above an integer for that integer. With
  \<open>totTime = 1 + 2\<^sup>-\<^sup>5\<^sup>1\<close> (the double \<open>1.0000000000000004\<close>) and \<open>dt = 1\<close> the ceiling is \<open>2\<close>
  and the claim gives \<open>21\<close> terms; the program computes \<open>t = 1\<close> and applies \<open>11\<close>.
\<close>
theorem IsingModel2DSim_tolerance:
  "\<lceil>(1 + 1 / 2 ^ 51 :: real) / 1\<rceil> = 2
   \<and> Ceiling (nearest ((1 + 1 / 2 ^ 51) / 1)) = 1
   \<and> (\<exists>seqA seqB layers.
         SetSequences 11 trotter_p 1 1 1 = Inr (seqA, seqB)
       \<and> main_loop 2 [0, 1, 2, 3] seqA seqB 11 = Inr layers
       \<and> length layers = 11
       \<and> IsingModel2DSim 2 1 1 (1 + 1 / 2 ^ 51) 1 (1 / 1000) 0 (\<lambda>k. False) = Inr (concat layers))"
proof -
  have c: "\<lceil>(1 + 1 / 2 ^ 51 :: real) / 1\<rceil> = 2" by (rule ceiling_unique) simp_all
  have t: "Ceiling (nearest ((1 + 1 / 2 ^ 51) / 1)) = 1"
    by (simp only: div_by_1 nearest_above_1 Ceiling_above_1)
  have s: "11 = wrap (wrap (10 * Ceiling (nearest ((1 + 1 / 2 ^ 51) / 1))) + 1)"
    unfolding t by (simp add: wrap_def)
  have q: "Qubits (wrap (2 * 2)) = Inr [0, 1, 2, 3]"
    by (simp add: Qubits_def wrap_def upt_rec)
  from SetSequences_char[of 11 trotter_p 1 1 1] obtain seqA seqB where
    S: "SetSequences 11 trotter_p 1 1 1 = Inr (seqA, seqB)"
      "int (length seqA) = 11" "int (length seqB) = 11"
    by auto
  have "\<exists>layers. main_loop 2 [0, 1, 2, 3] seqA seqB 11 = Inr layers
           \<and> int (length layers) = 11
           \<and> (\<forall>i. 0 \<le> i \<and> i < 11 \<longrightarrow> exp_term 2 [0, 1, 2, 3] seqA seqB i = Inr (layers ! nat i))"
    using S(2,3) by (intro main_loop_ok) simp_all
  then obtain layers where
    L: "main_loop 2 [0, 1, 2, 3] seqA seqB 11 = Inr layers" "int (length layers) = 11"
    by blast
  have n: "for_each [1..0] (\<lambda>k. case item [0, 1, 2, 3] 0 of
                     Inl e \<Rightarrow> Inl e
                   | Inr q \<Rightarrow> Ignore ((\<lambda>k. False) k) (Inr [M q])) = Inr []"
    by (simp add: for_each_def)
  have "IsingModel2DSim 2 1 1 (1 + 1 / 2 ^ 51) 1 (1 / 1000) 0 (\<lambda>k. False) = Inr (concat layers)"
    unfolding IsingModel2DSim_unfold[OF q s] trotter_p_def[symmetric]
    by (simp only: S(1) L(1) n sum.case prod.case append_Nil2)
  moreover have "length layers = 11" using L(2) by simp
  ultimately show ?thesis using c t S(1) L(1) by blast
qed

text \<open>
  \<^bold>\<open>C2\<close>, amended. Let \<open>t\<close> be the \<^verbatim>\<open>Int\<close> that \<^verbatim>\<open>Ceiling(totTime / dt)\<close> returns: the ceiling
  of the double quotient, or the integer below it when the quotient is within \<open>10\<^sup>-\<^sup>1\<^sup>5\<close>
  of that integer. For every \<open>N \<ge> 1\<close> with \<open>N\<^sup>2 \<le> 2\<^sup>6\<^sup>3 - 1\<close>, \<open>dt > 0\<close> and \<open>totTime\<close> with
  \<open>t \<ge> 0\<close> and \<open>10 t + 1 \<le> 2\<^sup>6\<^sup>3 - 1\<close>, the sequences have length \<open>10 t + 1\<close>, the main loop of
  \<^verbatim>\<open>IsingModel2DSim\<close> runs to its end and applies exactly \<open>10 t + 1\<close> exponential terms, one
  per index \<open>0 \<le> i < 10 t + 1\<close>: the \<^verbatim>\<open>ApplyAllX\<close> layer with \<open>seqA[i]\<close> at an even \<open>i\<close>, the
  four passes of \<^verbatim>\<open>ApplyDoubleZ\<close> with \<open>seqB[i]\<close> at an odd \<open>i\<close>; the circuit is these terms
  followed by the \<open>noops\<close> measurements.
\<close>
theorem IsingModel2DSim_terms:
  assumes "1 \<le> N" "N * N \<le> 2 ^ 63 - 1" "0 < dt"
    and "t = Ceiling (nearest (totTime / dt))" "0 \<le> t" "10 * t + 1 \<le> 2 ^ 63 - 1"
  shows "\<exists>seqA seqB layers.
           SetSequences (10 * t + 1) trotter_p dt J g = Inr (seqA, seqB)
         \<and> main_loop N [0..<nat (N * N)] seqA seqB (10 * t + 1) = Inr layers
         \<and> int (length layers) = 10 * t + 1
         \<and> (\<forall>i. 0 \<le> i \<and> i < 10 * t + 1 \<longrightarrow>
                (if even i
                 then layers ! nat i = ApplyAllX [0..<nat (N * N)] (seqA ! nat i)
                 else for_each [(True, True), (True, False), (False, True), (False, False)]
                        (\<lambda>(dir, grp). ApplyDoubleZ N [0..<nat (N * N)] (seqB ! nat i) dir grp)
                      = Inr (layers ! nat i)))
         \<and> IsingModel2DSim N J g totTime dt eps noops outcome
             = Inr (concat layers @ replicate (nat noops) (M 0))"
proof -
  let ?seqLen = "10 * t + 1"
  let ?qs = "[0..<nat (N * N)]"
  have qs: "int (length ?qs) = N * N" by simp
  have len: "1 \<le> ?seqLen" using assms(5) by simp
  have up: "10 * t + 1 \<le> 9223372036854775807" using assms(6) by simp
  have w1: "wrap (10 * t) = 10 * t" using assms(5) up by (intro wrap_numeral) linarith+
  have w2: "wrap (10 * t + 1) = 10 * t + 1" using assms(5) up by (intro wrap_numeral) linarith+
  have s: "?seqLen = wrap (wrap (10 * Ceiling (nearest (totTime / dt))) + 1)"
    unfolding assms(4)[symmetric] w1 w2 by (rule refl)
  from SetSequences_char[OF len, of trotter_p dt J g] obtain seqA seqB where
    S: "SetSequences ?seqLen trotter_p dt J g = Inr (seqA, seqB)"
      "int (length seqA) = ?seqLen" "int (length seqB) = ?seqLen"
    by blast
  from main_loop_ok[OF assms(1,2) qs len assms(6) S(2,3)] obtain layers where
    L: "main_loop N ?qs seqA seqB ?seqLen = Inr layers"
       "int (length layers) = ?seqLen"
       "\<forall>i. 0 \<le> i \<and> i < ?seqLen \<longrightarrow> exp_term N ?qs seqA seqB i = Inr (layers ! nat i)"
    by blast
  have layer: "if even i
                 then layers ! nat i = ApplyAllX ?qs (seqA ! nat i)
                 else for_each [(True, True), (True, False), (False, True), (False, False)]
                        (\<lambda>(dir, grp). ApplyDoubleZ N ?qs (seqB ! nat i) dir grp)
                      = Inr (layers ! nat i)" if "0 \<le> i" "i < ?seqLen" for i
  proof (cases "even i")
    case True
    have "exp_term N ?qs seqA seqB i = Inr (ApplyAllX ?qs (seqA ! nat i))"
      using True that S(2) by (intro exp_term_even) auto
    then show ?thesis using L(3) that True by simp
  next
    case False
    have "exp_term N ?qs seqA seqB i = for_each [(True, True), (True, False), (False, True), (False, False)]
             (\<lambda>(dir, grp). ApplyDoubleZ N ?qs (seqB ! nat i) dir grp)"
      using False that S(3) by (intro exp_term_odd) auto
    then show ?thesis using L(3) that False by simp
  qed
  have run: "IsingModel2DSim N J g totTime dt eps noops outcome
             = Inr (concat layers @ replicate (nat noops) (M 0))"
    unfolding IsingModel2DSim_unfold[OF register[OF assms(1,2)] s] trotter_p_def[symmetric]
    using S(1) L(1) noops_ok[OF assms(1), of noops outcome]
    by (simp only: sum.case prod.case)
  show ?thesis using S(1) L(1,2) layer run by blast
qed

text \<open>One time step on the \<open>2 \<times> 2\<close> lattice, two measurements at the end: the first
  exponential term rotates the four qubits, the second couples the four pairs of
  neighbours.\<close>
theorem IsingModel2DSim_terms_witness:
  "(1::int) \<le> 2 \<and> (2::int) * 2 \<le> 2 ^ 63 - 1 \<and> (0::real) < 1
   \<and> 1 = Ceiling (nearest (1 / 1)) \<and> (0::int) \<le> 1 \<and> (10::int) * 1 + 1 \<le> 2 ^ 63 - 1
   \<and> (\<exists>seqA seqB layers.
           SetSequences 11 trotter_p 1 1 1 = Inr (seqA, seqB)
         \<and> main_loop 2 [0, 1, 2, 3] seqA seqB 11 = Inr layers
         \<and> int (length layers) = 11
         \<and> layers ! 0 = [Rx (2 * seqA ! 0) 0, Rx (2 * seqA ! 0) 1, Rx (2 * seqA ! 0) 2, Rx (2 * seqA ! 0) 3]
         \<and> layers ! 1 = [CNOT 0 1, Rz (2 * seqB ! 1) 1, CNOT 0 1, CNOT 3 2, Rz (2 * seqB ! 1) 2, CNOT 3 2,
                          CNOT 0 3, Rz (2 * seqB ! 1) 3, CNOT 0 3, CNOT 1 2, Rz (2 * seqB ! 1) 2, CNOT 1 2]
         \<and> IsingModel2DSim 2 1 1 1 1 1 2 (\<lambda>k. False)
             = Inr (concat layers @ [M 0, M 0]))"
proof -
  have h: "(1::int) \<le> 2" "(2::int) * 2 \<le> 2 ^ 63 - 1" "(0::real) < 1"
    "1 = Ceiling (nearest (1 / 1))" "(0::int) \<le> 1" "(10::int) * 1 + 1 \<le> 2 ^ 63 - 1"
    by (simp_all add: nearest_1 Ceiling_1)
  have q: "[0..<nat (2 * 2)] = [0, 1, 2, 3]" by (simp add: upt_rec)
  from IsingModel2DSim_terms[OF h, of 1 1 1 2 "\<lambda>k. False"] obtain seqA seqB layers where
    r: "SetSequences (10 * 1 + 1) trotter_p 1 1 1 = Inr (seqA, seqB)"
       "main_loop 2 [0..<nat (2 * 2)] seqA seqB (10 * 1 + 1) = Inr layers"
       "int (length layers) = 10 * 1 + 1"
       "\<forall>i. 0 \<le> i \<and> i < 10 * 1 + 1 \<longrightarrow>
                (if even i
                 then layers ! nat i = ApplyAllX [0..<nat (2 * 2)] (seqA ! nat i)
                 else for_each [(True, True), (True, False), (False, True), (False, False)]
                        (\<lambda>(dir, grp). ApplyDoubleZ 2 [0..<nat (2 * 2)] (seqB ! nat i) dir grp)
                      = Inr (layers ! nat i))"
       "IsingModel2DSim 2 1 1 1 1 1 2 (\<lambda>k. False)
             = Inr (concat layers @ replicate (nat 2) (M 0))"
    by blast
  have a: "layers ! 0 = [Rx (2 * seqA ! 0) 0, Rx (2 * seqA ! 0) 1, Rx (2 * seqA ! 0) 2, Rx (2 * seqA ! 0) 3]"
    using r(4)[unfolded q, rule_format, of 0] by (simp add: ApplyAllX_def)
  have b1: "for_each [(True, True), (True, False), (False, True), (False, False)]
     (\<lambda>(dir, grp). ApplyDoubleZ 2 [0, 1, 2, 3] (seqB ! 1) dir grp) = Inr (layers ! 1)"
    using r(4)[unfolded q, rule_format, of 1] by simp
  have b: "layers ! 1 = [CNOT 0 1, Rz (2 * seqB ! 1) 1, CNOT 0 1, CNOT 3 2, Rz (2 * seqB ! 1) 2, CNOT 3 2,
                          CNOT 0 3, Rz (2 * seqB ! 1) 3, CNOT 0 3, CNOT 1 2, Rz (2 * seqB ! 1) 2, CNOT 1 2]"
    using b1 unfolding layers_2x2 by simp
  have c: "replicate (nat 2) (M 0) = [M 0, M 0]" by (simp add: numeral_2_eq_2)
  have d: "int (length layers) = 11" using r(3) by simp
  have e: "SetSequences 11 trotter_p 1 1 1 = Inr (seqA, seqB)" using r(1) by simp
  have f: "main_loop 2 [0, 1, 2, 3] seqA seqB 11 = Inr layers" using r(2)[unfolded q] by simp
  show ?thesis using h e f d a b r(5)[unfolded c] by blast
qed

section \<open>Properties of the dashboard\<close>

subsection \<open>Steps\<close>

lemma then_give_at: "then_py (give (Inr x)) f h = f x h"
  by (simp add: then_py_def give_def)

lemma then_raise_at: "then_py (give (Inl e)) f h = (Inl e, h)"
  by (simp add: then_py_def give_def)

lemma reads_give: "reads (give r)"
  by (simp add: reads_def give_def)

lemma reads_then:
  assumes "reads m" "\<And>x. reads (f x)"
  shows "reads (then_py m f)"
proof -
  have "snd (then_py m f h) = h" for h
  proof (cases "m h")
    case (Pair r h')
    have h': "h' = h" using assms(1) Pair by (auto simp: reads_def dest: spec[of _ h])
    show ?thesis
    proof (cases r)
      case (Inl e)
      then show ?thesis using Pair h' by (simp add: then_py_def)
    next
      case (Inr x)
      then show ?thesis using Pair h' assms(2)[of x] by (simp add: then_py_def reads_def)
    qed
  qed
  then show ?thesis by (simp add: reads_def)
qed

lemma reads_getitem: "reads (getitem d key)"
  by (simp add: reads_def getitem_def split: pyval.splits option.splits)

lemma reads_getpath: "reads (getpath d ks)"
  by (induction ks arbitrary: d) (simp_all add: reads_give reads_then reads_getitem)


lemma reads_eq: "reads m \<Longrightarrow> m h = (fst (m h), h)"
  by (simp add: reads_def prod_eq_iff)

lemma field_eq: "fst (getpath d ks h) = Inr v \<Longrightarrow> getpath d ks h = (Inr v, h)"
  using reads_eq[OF reads_getpath, of d ks h] by simp

lemma then_field: "fst (getpath d ks h) = Inr v \<Longrightarrow> then_py (getpath d ks) f h = f v h"
  using field_eq[of d ks h v] by (simp add: then_py_def)

subsection \<open>The rows\<close>

lemma runtime_indices: "[1..<length units] = [1, 2, 3, 4, 5, 6, 7]"
  by (simp add: units_def upt_rec)

text \<open>\<^verbatim>\<open>get_row\<close> on a record whose fields are present: what is left is the arithmetic and
  the formatting.\<close>

lemma get_row_fields:
  assumes "fst (getpath result [''physicalCounts'', ''breakdown'', ''algorithmicLogicalQubits''] h) = Inr lq"
    and "fst (getpath result [''physicalCounts'', ''breakdown'', ''logicalDepth''] h) = Inr ld"
    and "fst (getpath result [''physicalCounts'', ''breakdown'', ''numTstates''] h) = Inr nt"
    and "fst (getpath result [''logicalQubit'', ''codeDistance''] h) = Inr cd"
    and "fst (getpath result [''physicalCounts'', ''breakdown'', ''numTfactories''] h) = Inr nf"
    and "fst (getpath result [''physicalCounts'', ''breakdown'', ''physicalQubitsForTfactories''] h) = Inr ft"
    and "fst (getpath result [''physicalCounts'', ''physicalQubits''] h) = Inr pq"
    and "fst (getpath result [''physicalCounts'', ''runtime''] h) = Inr rt"
  shows "get_row fmt result h =
     (case truediv ft pq of
        Inl e \<Rightarrow> Inl e
      | Inr ratio \<Rightarrow>
     (case format_spec fmt ''.1e'' ld of
        Inl e \<Rightarrow> Inl e
      | Inr ld_text \<Rightarrow>
     (case format_spec fmt ''.1e'' nt of
        Inl e \<Rightarrow> Inl e
      | Inr nt_text \<Rightarrow>
     (case truediv pq (VFloat 1000000) of
        Inl e \<Rightarrow> Inl e
      | Inr millions \<Rightarrow>
     (case runtime_text rt of
        Inl e \<Rightarrow> Inl e
      | Inr rt_text \<Rightarrow>
          Inr (lq, ld_text, nt_text, cd, nf, fmt ''.1f'' (nearest (ratio * 100)) @ ''%'',
               fmt ''.2f'' millions @ ''M'', rt_text))))), h)"
proof -
  note f = assms[THEN then_field]
  show ?thesis
    by (cases "truediv ft pq"; cases "format_spec fmt ''.1e'' ld"; cases "format_spec fmt ''.1e'' nt";
        cases "truediv pq (VFloat 1000000)"; cases "runtime_text rt";
        simp only: get_row_def f then_give_at then_raise_at sum.case give_def)
qed

subsection \<open>Numbers in the range of a double\<close>

lemma limit_below: "float_limit \<le> 2 ^ 1024"
proof -
  have "(0::real) \<le> 2 ^ 970" by (rule zero_le_power) simp
  then show ?thesis unfolding float_limit_def by (simp only: diff_le_eq le_add_same_cancel1)
qed

lemma quotient_bound:
  assumes "y \<noteq> 0"
  shows "\<bar>real_of_int x / real_of_int y\<bar> \<le> \<bar>real_of_int x\<bar>"
proof -
  have "1 \<le> \<bar>y\<bar>" using assms by linarith
  then have y: "1 \<le> \<bar>real_of_int y\<bar>" by linarith
  have "\<bar>real_of_int x\<bar> / \<bar>real_of_int y\<bar> \<le> \<bar>real_of_int x\<bar> / 1"
    using y by (intro divide_left_mono) simp_all
  then show ?thesis by simp
qed

lemma truediv_value:
  assumes "in_float_range a" "in_float_range b" "value_of b \<noteq> 0"
  shows "truediv a b = Inr (nearest (exact_quotient a b))"
proof (cases a)
  case ai: (VInt x)
  show ?thesis
  proof (cases b)
    case (VInt y)
    have y: "y \<noteq> 0" using assms(3) VInt by (simp add: value_of_def)
    have "\<bar>real_of_int x / real_of_int y\<bar> < float_limit"
      using quotient_bound[OF y, of x] assms(1) ai by (simp add: in_float_range_def)
    then show ?thesis using ai VInt y by (simp add: exact_quotient_def)
  next
    case (VFloat y)
    then show ?thesis using assms ai
      by (simp add: exact_quotient_def in_float_range_def to_float_def value_of_def as_float_def)
  qed (use assms in \<open>simp_all add: in_float_range_def\<close>)
next
  case af: (VFloat x)
  show ?thesis
  proof (cases b)
    case (VInt y)
    then show ?thesis using assms af
      by (simp add: exact_quotient_def in_float_range_def to_float_def value_of_def as_float_def)
  next
    case (VFloat y)
    then show ?thesis using assms af
      by (simp add: exact_quotient_def in_float_range_def value_of_def as_float_def)
  qed (use assms in \<open>simp_all add: in_float_range_def\<close>)
qed (use assms in \<open>simp_all add: in_float_range_def\<close>)

lemma millions_value:
  assumes "in_float_range a"
  shows "truediv a (VFloat 1000000) = Inr (nearest (as_float a / 1000000))"
  using assms
  by (cases a) (simp_all add: in_float_range_def to_float_def as_float_def)

lemma format_spec_value:
  assumes "in_float_range v"
  shows "format_spec fmt spec v = Inr (fmt spec (as_float v))"
  using assms
  by (cases v) (simp_all add: format_spec_def in_float_range_def to_float_def as_float_def)

lemma runtime_text_value:
  assumes "in_float_range v"
  shows "runtime_text v = Inr (runtime_formatted (value_of v))"
proof (cases v)
  case (VInt i)
  have "\<bar>real_of_int i / real_of_int 1000\<bar> \<le> \<bar>real_of_int i\<bar>" by (rule quotient_bound) simp
  then have "\<bar>real_of_int i / 1000\<bar> < float_limit"
    using assms VInt by (simp add: in_float_range_def)
  then show ?thesis using VInt by (simp add: runtime_text_def value_of_def)
next
  case (VFloat x)
  have "\<bar>x\<bar> < 2 ^ 1024" using assms VFloat limit_below by (simp add: in_float_range_def)
  then show ?thesis using VFloat by (simp add: runtime_text_def value_of_def)
qed (use assms in \<open>simp_all add: in_float_range_def\<close>)

subsection \<open>The runtime column\<close>



subsection \<open>The example record\<close>

lemma record_fields:
  "fst (getpath (VDict 0) [''physicalCounts'', ''breakdown'', ''algorithmicLogicalQubits'']
          (record_of ld pq rt)) = Inr (VInt 230)"
  "fst (getpath (VDict 0) [''physicalCounts'', ''breakdown'', ''logicalDepth'']
          (record_of ld pq rt)) = Inr ld"
  "fst (getpath (VDict 0) [''physicalCounts'', ''breakdown'', ''numTstates'']
          (record_of ld pq rt)) = Inr (VInt 400000)"
  "fst (getpath (VDict 0) [''logicalQubit'', ''codeDistance''] (record_of ld pq rt)) = Inr (VInt 15)"
  "fst (getpath (VDict 0) [''physicalCounts'', ''breakdown'', ''numTfactories'']
          (record_of ld pq rt)) = Inr (VInt 12)"
  "fst (getpath (VDict 0) [''physicalCounts'', ''breakdown'', ''physicalQubitsForTfactories'']
          (record_of ld pq rt)) = Inr (VInt 300000)"
  "fst (getpath (VDict 0) [''physicalCounts'', ''physicalQubits''] (record_of ld pq rt)) = Inr pq"
  "fst (getpath (VDict 0) [''physicalCounts'', ''runtime''] (record_of ld pq rt)) = Inr rt"
  by (simp_all add: record_of_def record_at_def getitem_def then_py_def give_def)

lemma small_in_range: "\<bar>i\<bar> \<le> 2 ^ 64 \<Longrightarrow> in_float_range (VInt i)"
proof -
  assume "\<bar>i\<bar> \<le> 2 ^ 64"
  then have "\<bar>real_of_int i\<bar> \<le> 2 ^ 64" by (metis of_int_abs of_int_le_numeral_power_cancel_iff)
  moreover have "(2::real) ^ 64 < float_limit"
  proof -
    have "(2::real) ^ 64 + 2 ^ 970 \<le> 2 ^ 970 + 2 ^ 970" by (intro add_right_mono power_increasing) simp_all
    also have "\<dots> = 2 ^ 971" by simp
    also have "\<dots> < (2::real) ^ 1024" by (intro power_strict_increasing) simp_all
    finally show ?thesis by (simp add: float_limit_def)
  qed
  ultimately show ?thesis by (simp add: in_float_range_def)
qed

text \<open>
  \<^bold>\<open>C3.\<close> As worded the claim fails: a record with all eight fields present as nonnegative
  numbers and \<^verbatim>\<open>physicalQubits = 0\<close> makes \<^verbatim>\<open>get_row\<close> raise \<^verbatim>\<open>ZeroDivisionError\<close> in the
  T-factory fraction.
\<close>
theorem get_row_zero_physical_qubits:
  "fst (getpath (VDict 0) [''physicalCounts'', ''breakdown'', ''algorithmicLogicalQubits'']
          (record_of (VInt 1500000) (VInt 0) (VInt 5000))) = Inr (VInt 230)
   \<and> fst (getpath (VDict 0) [''physicalCounts'', ''breakdown'', ''logicalDepth'']
          (record_of (VInt 1500000) (VInt 0) (VInt 5000))) = Inr (VInt 1500000)
   \<and> fst (getpath (VDict 0) [''physicalCounts'', ''breakdown'', ''numTstates'']
          (record_of (VInt 1500000) (VInt 0) (VInt 5000))) = Inr (VInt 400000)
   \<and> fst (getpath (VDict 0) [''logicalQubit'', ''codeDistance'']
          (record_of (VInt 1500000) (VInt 0) (VInt 5000))) = Inr (VInt 15)
   \<and> fst (getpath (VDict 0) [''physicalCounts'', ''breakdown'', ''numTfactories'']
          (record_of (VInt 1500000) (VInt 0) (VInt 5000))) = Inr (VInt 12)
   \<and> fst (getpath (VDict 0) [''physicalCounts'', ''breakdown'', ''physicalQubitsForTfactories'']
          (record_of (VInt 1500000) (VInt 0) (VInt 5000))) = Inr (VInt 300000)
   \<and> fst (getpath (VDict 0) [''physicalCounts'', ''physicalQubits'']
          (record_of (VInt 1500000) (VInt 0) (VInt 5000))) = Inr (VInt 0)
   \<and> fst (getpath (VDict 0) [''physicalCounts'', ''runtime'']
          (record_of (VInt 1500000) (VInt 0) (VInt 5000))) = Inr (VInt 5000)
   \<and> fst (get_row fmt0 (VDict 0) (record_of (VInt 1500000) (VInt 0) (VInt 5000)))
       = Inl ZeroDivisionError"
proof -
  have "fst (get_row fmt0 (VDict 0) (record_of (VInt 1500000) (VInt 0) (VInt 5000)))
       = Inl ZeroDivisionError"
    by (simp add: get_row_fields[OF record_fields])
  then show ?thesis by (simp only: record_fields simp_thms)
qed

text \<open>
  \<^bold>\<open>C3\<close>, amended. For every result record in which the eight accessed fields are present
  as nonnegative numbers in the range of a double (an \<^verbatim>\<open>int\<close> below \<open>2\<^sup>1\<^sup>0\<^sup>2\<^sup>4 - 2\<^sup>9\<^sup>7\<^sup>0\<close>, or a
  finite \<^verbatim>\<open>float\<close>) and \<^verbatim>\<open>physicalQubits\<close> is positive, \<^verbatim>\<open>get_row\<close> returns an 8-tuple,
  raises nothing and leaves every object as it was.
\<close>
theorem get_row_total:
  assumes "fst (getpath result [''physicalCounts'', ''breakdown'', ''algorithmicLogicalQubits''] h) = Inr lq"
      "in_float_range lq" "0 \<le> value_of lq"
    and "fst (getpath result [''physicalCounts'', ''breakdown'', ''logicalDepth''] h) = Inr ld"
      "in_float_range ld" "0 \<le> value_of ld"
    and "fst (getpath result [''physicalCounts'', ''breakdown'', ''numTstates''] h) = Inr nt"
      "in_float_range nt" "0 \<le> value_of nt"
    and "fst (getpath result [''physicalCounts'', ''breakdown'', ''numTfactories''] h) = Inr nf"
      "in_float_range nf" "0 \<le> value_of nf"
    and "fst (getpath result [''physicalCounts'', ''breakdown'', ''physicalQubitsForTfactories''] h) = Inr ft"
      "in_float_range ft" "0 \<le> value_of ft"
    and "fst (getpath result [''physicalCounts'', ''physicalQubits''] h) = Inr pq"
      "in_float_range pq" "0 < value_of pq"
    and "fst (getpath result [''physicalCounts'', ''runtime''] h) = Inr rt"
      "in_float_range rt" "0 \<le> value_of rt"
    and "fst (getpath result [''logicalQubit'', ''codeDistance''] h) = Inr cd"
      "in_float_range cd" "0 \<le> value_of cd"
  shows "\<exists>row. get_row fmt result h = (Inr row, h)"
proof -
  have nz: "value_of pq \<noteq> 0" using assms(18) by simp
  show ?thesis
    unfolding get_row_fields[OF assms(1,4,7,22,10,13,16,19)]
    by (simp add: truediv_value[OF assms(14,17) nz] format_spec_value[OF assms(5)]
          format_spec_value[OF assms(8)] millions_value[OF assms(17)]
          runtime_text_value[OF assms(20)])
qed

text \<open>A record with a million physical qubits.\<close>
theorem get_row_total_witness:
  "fst (getpath (VDict 0) [''physicalCounts'', ''breakdown'', ''algorithmicLogicalQubits'']
          (record_of (VInt 1500000) (VInt 1000000) (VInt 5000))) = Inr (VInt 230)
   \<and> in_float_range (VInt 230) \<and> 0 \<le> value_of (VInt 230)
   \<and> fst (getpath (VDict 0) [''physicalCounts'', ''breakdown'', ''logicalDepth'']
          (record_of (VInt 1500000) (VInt 1000000) (VInt 5000))) = Inr (VInt 1500000)
   \<and> in_float_range (VInt 1500000) \<and> 0 \<le> value_of (VInt 1500000)
   \<and> fst (getpath (VDict 0) [''physicalCounts'', ''breakdown'', ''numTstates'']
          (record_of (VInt 1500000) (VInt 1000000) (VInt 5000))) = Inr (VInt 400000)
   \<and> in_float_range (VInt 400000) \<and> 0 \<le> value_of (VInt 400000)
   \<and> fst (getpath (VDict 0) [''physicalCounts'', ''breakdown'', ''numTfactories'']
          (record_of (VInt 1500000) (VInt 1000000) (VInt 5000))) = Inr (VInt 12)
   \<and> in_float_range (VInt 12) \<and> 0 \<le> value_of (VInt 12)
   \<and> fst (getpath (VDict 0) [''physicalCounts'', ''breakdown'', ''physicalQubitsForTfactories'']
          (record_of (VInt 1500000) (VInt 1000000) (VInt 5000))) = Inr (VInt 300000)
   \<and> in_float_range (VInt 300000) \<and> 0 \<le> value_of (VInt 300000)
   \<and> fst (getpath (VDict 0) [''physicalCounts'', ''physicalQubits'']
          (record_of (VInt 1500000) (VInt 1000000) (VInt 5000))) = Inr (VInt 1000000)
   \<and> in_float_range (VInt 1000000) \<and> 0 < value_of (VInt 1000000)
   \<and> fst (getpath (VDict 0) [''physicalCounts'', ''runtime'']
          (record_of (VInt 1500000) (VInt 1000000) (VInt 5000))) = Inr (VInt 5000)
   \<and> in_float_range (VInt 5000) \<and> 0 \<le> value_of (VInt 5000)
   \<and> fst (getpath (VDict 0) [''logicalQubit'', ''codeDistance'']
          (record_of (VInt 1500000) (VInt 1000000) (VInt 5000))) = Inr (VInt 15)
   \<and> in_float_range (VInt 15) \<and> 0 \<le> value_of (VInt 15)
   \<and> (\<exists>row. get_row fmt0 (VDict 0) (record_of (VInt 1500000) (VInt 1000000) (VInt 5000))
              = (Inr row, record_of (VInt 1500000) (VInt 1000000) (VInt 5000)))"
proof -
  note f = record_fields[of "VInt 1500000" "VInt 1000000" "VInt 5000"]
  have r: "in_float_range (VInt 230)" "in_float_range (VInt 1500000)" "in_float_range (VInt 400000)"
    "in_float_range (VInt 12)" "in_float_range (VInt 300000)" "in_float_range (VInt 1000000)"
    "in_float_range (VInt 5000)" "in_float_range (VInt 15)"
    by (simp_all add: small_in_range)
  have v: "0 \<le> value_of (VInt 230)" "0 \<le> value_of (VInt 1500000)" "0 \<le> value_of (VInt 400000)"
    "0 \<le> value_of (VInt 12)" "0 \<le> value_of (VInt 300000)" "0 < value_of (VInt 1000000)"
    "0 \<le> value_of (VInt 5000)" "0 \<le> value_of (VInt 15)"
    by (simp_all add: value_of_def)
  have "\<exists>row. get_row fmt0 (VDict 0) (record_of (VInt 1500000) (VInt 1000000) (VInt 5000))
              = (Inr row, record_of (VInt 1500000) (VInt 1000000) (VInt 5000))"
    using get_row_total[OF f(1) r(1) v(1) f(2) r(2) v(2) f(3) r(3) v(3) f(5) r(4) v(4)
        f(6) r(5) v(5) f(7) r(6) v(6) f(8) r(7) v(7) f(4) r(8) v(8), of fmt0] .
  then show ?thesis using f r v by (simp only: simp_thms)
qed

subsection \<open>The runtime column at 999600 ns\<close>

lemma nearest_999: "nearest (8792574584999117 / 2 ^ 43 / 1000) = 9003596375039096 / 2 ^ 53"
proof -
  have "nearest (8792574584999117 / 2 ^ 43 / 1000)
          = of_int (half_even (8792574584999117 / 2 ^ 43 / 1000 * 2 ^ nat (52 - (- 1)))) / 2 ^ nat (52 - (- 1))"
    by (rule nearest_small) (simp_all add: powi_neg)
  moreover have "half_even (8792574584999117 / 2 ^ 43 / 1000 * 2 ^ nat (52 - (- 1))) = 9003596375039096"
    by (rule half_even_near) simp
  ultimately show ?thesis by simp
qed

lemma loop_continue:
  "\<not> nearest (r / of_int (snd (units ! idx))) < 1 \<Longrightarrow>
     runtime_loop (idx # rest) r = runtime_loop rest (nearest (r / of_int (snd (units ! idx))))"
  by simp

lemma loop_break:
  "nearest (r / of_int (snd (units ! idx))) < 1 \<Longrightarrow>
     runtime_loop (idx # rest) r =
       Text (str_int (py_round r mod snd (units ! idx)) @ '' '' @ fst (units ! (idx - 1)))"
  by simp

lemma runtime_formatted_999600: "runtime_formatted 999600 = ''0 microsecs''"
proof -
  have r: "py_round (8792574584999117 / 2 ^ 43) = 1000" by (simp add: py_round_def)
  have u: "snd (units ! 1) = 1000" "snd (units ! 2) = 1000" "fst (units ! (2 - 1)) = ''microsecs''"
    by (simp_all add: units_def)
  have a: "nearest (999600 / of_int (snd (units ! 1))) = 8792574584999117 / 2 ^ 43"
    unfolding u using nearest_999600 by simp
  have b: "nearest (8792574584999117 / 2 ^ 43 / of_int (snd (units ! 2))) = 9003596375039096 / 2 ^ 53"
    unfolding u using nearest_999 by simp
  have "runtime_loop [1, 2, 3, 4, 5, 6, 7] 999600
          = runtime_loop [2, 3, 4, 5, 6, 7] (nearest (999600 / of_int (snd (units ! 1))))"
    by (rule loop_continue) (simp only: a, simp)
  also have "\<dots> = runtime_loop [2, 3, 4, 5, 6, 7] (8792574584999117 / 2 ^ 43)"
    by (simp only: a)
  also have "\<dots> = Text (str_int (py_round (8792574584999117 / 2 ^ 43) mod snd (units ! 2))
                        @ '' '' @ fst (units ! (2 - 1)))"
    by (rule loop_break) (simp only: b, simp)
  also have "\<dots> = Text ''0 microsecs''"
    by (simp only: r u) (simp add: str_int_def)
  finally have l: "runtime_loop [1, 2, 3, 4, 5, 6, 7] 999600 = Text ''0 microsecs''" .
  show ?thesis unfolding runtime_formatted_def runtime_indices l by simp
qed

text \<open>
  \<^bold>\<open>C4.\<close> The claim is that the runtime is shown in the largest unit in which it is at
  least \<open>1.0\<close>, as that value rounded to the nearest integer, followed by the unit. The code
  prints \<^verbatim>\<open>round(value) % factor\<close>, with the factor of the next unit. At 999600 ns the
  largest such unit is microseconds, the value 999.6 rounds to 1000, and the code prints
  \<^verbatim>\<open>0 microsecs\<close>.
\<close>
theorem runtime_formatted_wraps:
  "1 \<le> scaled 999600 1 \<and> scaled 999600 2 < 1
   \<and> py_round (scaled 999600 1) = 1000
   \<and> str_int (py_round (scaled 999600 1)) @ '' '' @ fst (units ! 1) = ''1000 microsecs''
   \<and> runtime_formatted 999600 = ''0 microsecs''"
proof -
  have "1 \<le> scaled 999600 1" "scaled 999600 2 < 1" by (simp_all add: scaled_def units_def)
  moreover have r: "py_round (scaled 999600 1) = 1000" by (simp add: scaled_def units_def py_round_def)
  moreover have "str_int (py_round (scaled 999600 1)) @ '' '' @ fst (units ! 1) = ''1000 microsecs''"
    unfolding r by (simp add: units_def str_int_def)
  ultimately show ?thesis using runtime_formatted_999600 by simp
qed

subsection \<open>The columns\<close>



lemma get_row_value:
  assumes "fst (getpath result [''physicalCounts'', ''breakdown'', ''algorithmicLogicalQubits''] h) = Inr lq"
    and "fst (getpath result [''physicalCounts'', ''breakdown'', ''logicalDepth''] h) = Inr ld"
    and "fst (getpath result [''physicalCounts'', ''breakdown'', ''numTstates''] h) = Inr nt"
    and "fst (getpath result [''logicalQubit'', ''codeDistance''] h) = Inr cd"
    and "fst (getpath result [''physicalCounts'', ''breakdown'', ''numTfactories''] h) = Inr nf"
    and "fst (getpath result [''physicalCounts'', ''breakdown'', ''physicalQubitsForTfactories''] h) = Inr ft"
    and "fst (getpath result [''physicalCounts'', ''physicalQubits''] h) = Inr pq"
    and "fst (getpath result [''physicalCounts'', ''runtime''] h) = Inr rt"
    and "in_float_range ld" "in_float_range nt" "in_float_range ft" "in_float_range pq"
      "in_float_range rt" "value_of pq \<noteq> 0"
  shows "get_row fmt result h =
               (Inr (lq, fmt ''.1e'' (as_float ld), fmt ''.1e'' (as_float nt), cd, nf,
                     fmt ''.1f'' (nearest (nearest (exact_quotient ft pq) * 100)) @ ''%'',
                     fmt ''.2f'' (nearest (as_float pq / 1000000)) @ ''M'',
                     runtime_formatted (value_of rt)), h)"
  unfolding get_row_fields[OF assms(1-8)]
  by (simp only: truediv_value[OF assms(11,12,14)] format_spec_value[OF assms(9)]
        format_spec_value[OF assms(10)] millions_value[OF assms(12)]
        runtime_text_value[OF assms(13)] sum.case)




subsection \<open>The results object\<close>








text \<open>A \<^verbatim>\<open>get_row\<close> that marks the record it has formatted changes the record: the frame
  property tells the two apart.\<close>

lemma get_row_marking_writes:
  "snd (get_row_marking fmt0 (VDict 0) (record_of (VInt 1500000) (VInt 1200000) (VInt 1500))) 0
     \<noteq> record_of (VInt 1500000) (VInt 1200000) (VInt 1500) 0"
proof -
  let ?h = "record_of (VInt 1500000) (VInt 1200000) (VInt 1500)"
  have r: "in_float_range (VInt 1500000)" "in_float_range (VInt 400000)" "in_float_range (VInt 300000)"
    "in_float_range (VInt 1200000)" "in_float_range (VInt 1500)"
    by (simp_all add: small_in_range)
  have v: "value_of (VInt 1200000) \<noteq> 0" by (simp add: value_of_def)
  from get_row_value[OF record_fields r v, of fmt0]
  obtain row where g: "get_row fmt0 (VDict 0) ?h = (Inr row, ?h)" by blast
  have "snd (get_row_marking fmt0 (VDict 0) ?h) 0 = (''seen'', VInt 1) # ?h 0"
    by (simp add: get_row_marking_def then_py_def g setitem_def give_def)
  then show ?thesis by simp
qed



subsection \<open>Where the doubles show\<close>

lemma loop_step:
  "nearest (r / of_int (snd (units ! idx))) = q \<Longrightarrow> 1 \<le> q \<Longrightarrow>
     runtime_loop (idx # rest) r = runtime_loop rest q"
  by simp

text \<open>
  A runtime of 78840000000000001 ns is a little more than two and a half years, and the
  exact quotient rounds to 3. The first division of the code gives the double
  78840000000000, the last one gives 2.5 exactly, and \<^verbatim>\<open>round\<close> takes a tie to the even
  integer: the code prints \<^verbatim>\<open>2 years\<close>.
\<close>

lemma runtime_formatted_tie:
  "py_round (scaled 78840000000000001 7) = 3
   \<and> runtime_formatted 78840000000000001 = ''2 years''"
proof -
  have e1: "nearest (78840000000000001 / 1000) = 78840000000000"
  proof -
    have "nearest (78840000000000001 / 1000)
            = of_int (half_even (78840000000000001 / 1000 * 2 ^ nat (52 - 46))) / 2 ^ nat (52 - 46)"
      by (rule nearest_small) (simp_all add: powi_pos)
    moreover have "half_even (78840000000000001 / 1000 * 2 ^ nat (52 - 46)) = 5045760000000000"
      by (rule half_even_near) simp
    ultimately show ?thesis by simp
  qed
  have e2: "nearest 78840000000 = 78840000000"
    by (rule nearest_exact[of 36 _ "78840000000 * 2 ^ 16"]) (simp_all add: powi_pos)
  have e3: "nearest 78840000 = 78840000"
    by (rule nearest_exact[of 26 _ "78840000 * 2 ^ 26"]) (simp_all add: powi_pos)
  have e4: "nearest 1314000 = 1314000"
    by (rule nearest_exact[of 20 _ "1314000 * 2 ^ 32"]) (simp_all add: powi_pos)
  have e5: "nearest 21900 = 21900"
    by (rule nearest_exact[of 14 _ "21900 * 2 ^ 38"]) (simp_all add: powi_pos)
  have e6: "nearest (1825 / 2) = 1825 / 2"
    by (rule nearest_exact[of 9 _ "1825 * 2 ^ 42"]) (simp_all add: powi_pos)
  have e7: "nearest (5 / 2) = 5 / 2"
    by (rule nearest_exact[of 1 _ "5 * 2 ^ 50"]) (simp_all add: powi_pos)
  have u: "snd (units ! 1) = 1000" "snd (units ! 2) = 1000" "snd (units ! 3) = 1000"
    "snd (units ! 4) = 60" "snd (units ! 5) = 60" "snd (units ! 6) = 24" "snd (units ! 7) = 365"
    "fst (last units) = ''years''"
    by (simp_all add: units_def)
  have "runtime_loop [1, 2, 3, 4, 5, 6, 7] 78840000000000001
          = runtime_loop [2, 3, 4, 5, 6, 7] 78840000000000"
    by (rule loop_step) (simp_all only: u, simp_all add: e1)
  also have "\<dots> = runtime_loop [3, 4, 5, 6, 7] 78840000000"
    by (rule loop_step) (simp_all only: u, simp_all add: e2)
  also have "\<dots> = runtime_loop [4, 5, 6, 7] 78840000"
    by (rule loop_step) (simp_all only: u, simp_all add: e3)
  also have "\<dots> = runtime_loop [5, 6, 7] 1314000"
    by (rule loop_step) (simp_all only: u, simp_all add: e4)
  also have "\<dots> = runtime_loop [6, 7] 21900"
    by (rule loop_step) (simp_all only: u, simp_all add: e5)
  also have "\<dots> = runtime_loop [7] (1825 / 2)"
    by (rule loop_step) (simp_all only: u, simp_all add: e6)
  also have "\<dots> = runtime_loop [] (5 / 2)"
    by (rule loop_step) (simp_all only: u, simp_all add: e7)
  finally have l: "runtime_loop [1, 2, 3, 4, 5, 6, 7] 78840000000000001 = Float (5 / 2)" by simp
  have r: "py_round (5 / 2) = 2" by (simp add: py_round_def)
  have "runtime_formatted 78840000000000001 = ''2 years''"
    unfolding runtime_formatted_def runtime_indices l by (simp only: formatted.case r u) (simp add: str_int_def)
  moreover have "py_round (scaled 78840000000000001 7) = 3"
    by (simp add: scaled_def units_def py_round_def)
  ultimately show ?thesis by simp
qed

end
